theory Spec2Isabelle
  imports Complex_Main "HOL-Library.Multiset"
begin

section \<open>Errors, log entries and the client's state\<close>

text \<open>
  A JavaScript \<^verbatim>\<open>Error\<close> is identified by its message, the only field the source reads.
  A promise that has settled is either fulfilled with a value or rejected with an error:
  the result type \<open>error + 'a\<close> (\<open>Inl\<close> the rejection) is used for every awaited call.
\<close>

datatype error = Error string

fun message :: "error \<Rightarrow> string" where
  "message (Error m) = m"

datatype level = Debug | Info | Warn | Severe

type_synonym log_entry = "level \<times> string"

text \<open>
  The mutable fields of class \<^verbatim>\<open>HasuraClient\<close> that the schema synchronisation touches:
  the reentrancy flag, and two observable effects: the commands handed to \<^verbatim>\<open>exec\<close>
  (in order) and the lines written to the logger.
\<close>

record HasuraClient =
  applyingSchemaAndMetadata :: bool
  cli_calls :: "string list"
  logger :: "log_entry list"

definition new_client :: HasuraClient where
  "new_client = \<lparr>applyingSchemaAndMetadata = False, cli_calls = [], logger = []\<rparr>"

definition log_line :: "level \<Rightarrow> string \<Rightarrow> HasuraClient \<Rightarrow> HasuraClient" where
  "log_line l m c = c\<lparr>logger := logger c @ [(l, m)]\<rparr>"

section \<open>The Hasura command line\<close>

text \<open>
  \<^verbatim>\<open>exec\<close> answers every command with an optional error and the text of stdout. The
  external program is a parameter of the model: \<open>cl i\<close> is its answer to the \<open>i\<close>-th
  command started on this client (counting from 0).

  JavaScript runs one task at a time and switches tasks only where a task awaits. The
  promise of \<^verbatim>\<open>hasuraCli\<close> is the only await of the synchronisation, so whatever other
  tasks do to the client happens between the start of a command and its callback: the
  parameter \<open>others\<close>. A client left alone has \<open>others = alone\<close>.
\<close>

record exec_result =
  exec_error :: "error option"
  stdout :: string

type_synonym cli = "nat \<Rightarrow> exec_result"

type_synonym tasks = "HasuraClient \<Rightarrow> HasuraClient"

definition alone :: tasks where
  "alone c = c"

definition hasuraCli :: "cli \<Rightarrow> tasks \<Rightarrow> string \<Rightarrow> HasuraClient \<Rightarrow> (error + unit) \<times> HasuraClient" where
  "hasuraCli cl others command c =
     (let r = cl (length (cli_calls c));
          started = c\<lparr>cli_calls := cli_calls c @ [command]\<rparr>;
          resumed = others started
      in ((case exec_error r of Some e \<Rightarrow> Inl e | None \<Rightarrow> Inr ()),
          log_line Debug (stdout r) resumed))"

section \<open>The retrier\<close>

text \<open>
  Modelled from the spec: \<^verbatim>\<open>pRetry\<close> (package p-retry) and \<^verbatim>\<open>util.onFailedAttemptFor\<close>
  are not among the source files. Section 4.1 of the specification: the operation is
  invoked; on failure the failure callback is invoked (also after the final attempt),
  and the operation is tried again, up to \<open>retries + 1\<close> attempts in total; when all
  attempts fail the last error is raised unchanged. The waiting time between attempts
  (\<open>factor\<close>) is not observable in this model and is only recorded in the options.
  The failure callback built by \<^verbatim>\<open>onFailedAttemptFor\<close> serves observability: it writes one
  line to the logger (here the operation and the message of the error) and changes
  nothing else.
\<close>

record 's retry_options =
  factor :: rat
  retries :: nat
  onFailedAttempt :: "nat \<Rightarrow> error \<Rightarrow> 's \<Rightarrow> 's"

fun pRetry_from ::
  "nat \<Rightarrow> nat \<Rightarrow> ('s \<Rightarrow> (error + 'a) \<times> 's) \<Rightarrow> (nat \<Rightarrow> error \<Rightarrow> 's \<Rightarrow> 's) \<Rightarrow> 's \<Rightarrow> (error + 'a) \<times> 's"
where
  "pRetry_from attemptNumber 0 input onFailed s =
     (case input s of
        (Inr v, s1) \<Rightarrow> (Inr v, s1)
      | (Inl e, s1) \<Rightarrow> (Inl e, onFailed attemptNumber e s1))"
| "pRetry_from attemptNumber (Suc retriesLeft) input onFailed s =
     (case input s of
        (Inr v, s1) \<Rightarrow> (Inr v, s1)
      | (Inl e, s1) \<Rightarrow>
          pRetry_from (Suc attemptNumber) retriesLeft input onFailed (onFailed attemptNumber e s1))"

definition pRetry :: "('s \<Rightarrow> (error + 'a) \<times> 's) \<Rightarrow> 's retry_options \<Rightarrow> 's \<Rightarrow> (error + 'a) \<times> 's" where
  "pRetry input options = pRetry_from 1 (retries options) input (onFailedAttempt options)"

definition onFailedAttemptFor :: "string \<Rightarrow> nat \<Rightarrow> error \<Rightarrow> HasuraClient \<Rightarrow> HasuraClient" where
  "onFailedAttemptFor operation attemptNumber e c = log_line Warn (operation @ '': '' @ message e) c"

section \<open>applySchemaAndMetadata\<close>

text \<open>
  The options object of every \<^verbatim>\<open>pRetry\<close> call of the source:
  \<^verbatim>\<open>{ factor: 1.75, retries: 9, onFailedAttempt: util.onFailedAttemptFor(operation, this.logger) }\<close>.
\<close>

definition retry_policy :: "string \<Rightarrow> HasuraClient retry_options" where
  "retry_policy operation =
     \<lparr>factor = 7 / 4, retries = 9, onFailedAttempt = onFailedAttemptFor operation\<rparr>"

text \<open>The two retried units: each awaits its first command and then its second.\<close>

definition migrate_down :: string where "migrate_down = ''migrate apply --down all''"
definition migrate_up :: string where "migrate_up = ''migrate apply --up all''"
definition metadata_clear :: string where "metadata_clear = ''metadata clear''"
definition metadata_apply :: string where "metadata_apply = ''metadata apply''"

definition unit_of :: "cli \<Rightarrow> tasks \<Rightarrow> string \<Rightarrow> string \<Rightarrow> HasuraClient \<Rightarrow> (error + unit) \<times> HasuraClient" where
  "unit_of cl others first second c =
     (case hasuraCli cl others first c of
        (Inl e, c1) \<Rightarrow> (Inl e, c1)
      | (Inr _, c1) \<Rightarrow> hasuraCli cl others second c1)"

definition migrations :: "cli \<Rightarrow> tasks \<Rightarrow> HasuraClient \<Rightarrow> (error + unit) \<times> HasuraClient" where
  "migrations cl others = unit_of cl others migrate_down migrate_up"

definition metadata :: "cli \<Rightarrow> tasks \<Rightarrow> HasuraClient \<Rightarrow> (error + unit) \<times> HasuraClient" where
  "metadata cl others = unit_of cl others metadata_clear metadata_apply"

definition applySchemaAndMetadata :: "cli \<Rightarrow> tasks \<Rightarrow> HasuraClient \<Rightarrow> (error + unit) \<times> HasuraClient" where
  "applySchemaAndMetadata cl others c =
     (if applyingSchemaAndMetadata c then (Inr (), c)
      else
        (case pRetry (migrations cl others) (retry_policy ''Applying PostgreSQL schema migrations'')
                (c\<lparr>applyingSchemaAndMetadata := True\<rparr>) of
           (Inl e, c1) \<Rightarrow> (Inl e, c1)
         | (Inr _, c1) \<Rightarrow>
             (case pRetry (metadata cl others) (retry_policy ''Applying Hasura metadata'') c1 of
                (Inl e, c2) \<Rightarrow> (Inl e, c2)
              | (Inr _, c2) \<Rightarrow> (Inr (), c2\<lparr>applyingSchemaAndMetadata := False\<rparr>))))"

subsection \<open>Vocabulary for the properties of a run\<close>

text \<open>
  \<open>failed cl i\<close>: the \<open>i\<close>-th command ended with an error.
  \<open>follows cl i a b tr\<close> reads a list \<open>tr\<close> of commands, the first of which is the \<open>i\<close>-th
  command of the client, as the run of a unit with first command \<open>a\<close> and second command
  \<open>b\<close>: a command that failed is followed by \<open>a\<close> (the unit starts again), a command that
  succeeded and is followed by another one is \<open>a\<close>, followed by \<open>b\<close>.
  \<open>retried_whole\<close> adds that the list starts with \<open>a\<close>; \<open>settled\<close> says the list ends with
  a successful \<open>b\<close> (the unit has completed).
\<close>

definition failed :: "cli \<Rightarrow> nat \<Rightarrow> bool" where
  "failed cl i = (exec_error (cl i) \<noteq> None)"

fun follows :: "cli \<Rightarrow> nat \<Rightarrow> string \<Rightarrow> string \<Rightarrow> string list \<Rightarrow> bool" where
  "follows cl i a b (x # y # tr) =
     ((if failed cl i then y = a else x = a \<and> y = b) \<and> follows cl (Suc i) a b (y # tr))"
| "follows cl i a b tr = True"

definition retried_whole :: "cli \<Rightarrow> nat \<Rightarrow> string \<Rightarrow> string \<Rightarrow> string list \<Rightarrow> bool" where
  "retried_whole cl i a b tr = ((case tr of [] \<Rightarrow> True | x # _ \<Rightarrow> x = a) \<and> follows cl i a b tr)"

definition settled :: "cli \<Rightarrow> nat \<Rightarrow> string \<Rightarrow> string list \<Rightarrow> bool" where
  "settled cl i b tr = (tr \<noteq> [] \<and> last tr = b \<and> \<not> failed cl (i + length tr - 1))"

text \<open>
  Counting attempts: \<open>traced input\<close> is \<open>input\<close> with a record of the result of each of its
  invocations; \<open>traced_options\<close> lets the failure callback work on the state beside the
  record.
\<close>

definition traced ::
  "('s \<Rightarrow> (error + 'a) \<times> 's) \<Rightarrow> (error + 'a) list \<times> 's \<Rightarrow> (error + 'a) \<times> (error + 'a) list \<times> 's"
where
  "traced input = (\<lambda>(tr, s). case input s of (r, s') \<Rightarrow> (r, tr @ [r], s'))"

definition traced_options :: "'s retry_options \<Rightarrow> ('t \<times> 's) retry_options" where
  "traced_options options =
     \<lparr>factor = factor options, retries = retries options,
      onFailedAttempt = (\<lambda>k e (tr, s). (tr, onFailedAttempt options k e s))\<rparr>"

text \<open>Two command lines for concrete runs: one that fails every command, one that fails only its \<open>k\<close>-th.\<close>

definition failing_cli :: "string \<Rightarrow> cli" where
  "failing_cli m = (\<lambda>i. \<lparr>exec_error = Some (Error m), stdout = []\<rparr>)"

definition failing_once :: "nat \<Rightarrow> cli" where
  "failing_once k = (\<lambda>i. \<lparr>exec_error = (if i = k then Some (Error ''exit 1'') else None), stdout = []\<rparr>)"

section \<open>Quantities: the operations of bignumber.js that the client uses\<close>

text \<open>
  The client keeps every ledger quantity as a string and computes with
  \<^verbatim>\<open>new BigNumber(s)\<close>, \<^verbatim>\<open>plus\<close>, \<^verbatim>\<open>minus\<close> and \<^verbatim>\<open>toString\<close> of the package bignumber.js
  (default configuration). The model covers the integers: a value is an unbounded
  \<open>int\<close> or \<open>NaN\<close>. The constructor reads base 10 in the two notations \<^verbatim>\<open>toString\<close>
  writes, plain digits and exponential notation (\<^verbatim>\<open>1.5e+22\<close>), with an optional minus
  sign. Strings that denote no integer, or that the package reads in another notation
  (a plus sign, blanks, other bases, \<^verbatim>\<open>Infinity\<close>), are outside the model and are read as
  \<open>NaN\<close>; the properties of sums below are stated for decimal numerals, which is what
  the ledger delivers. Sums and differences of integers are exact in the package (no
  rounding applies to \<^verbatim>\<open>plus\<close> and \<^verbatim>\<open>minus\<close>).
\<close>

datatype BigNumber = BN int | NaN

definition is_digit :: "char \<Rightarrow> bool" where
  "is_digit ch = (48 \<le> (of_char ch :: nat) \<and> (of_char ch :: nat) \<le> 57)"

definition digit_val :: "char \<Rightarrow> nat" where
  "digit_val ch = of_char ch - 48"

definition digit_char :: "nat \<Rightarrow> char" where
  "digit_char d = char_of (48 + d)"

text \<open>A decimal numeral: one or more digits.\<close>

definition decimal :: "string \<Rightarrow> bool" where
  "decimal s = (s \<noteq> [] \<and> list_all is_digit s)"

definition nat_of_digits :: "string \<Rightarrow> nat" where
  "nat_of_digits s = foldl (\<lambda>n ch. 10 * n + digit_val ch) 0 s"

fun digits_of_nat :: "nat \<Rightarrow> string" where
  "digits_of_nat n =
     (if n < 10 then [digit_char n] else digits_of_nat (n div 10) @ [digit_char (n mod 10)])"

declare digits_of_nat.simps [simp del]

text \<open>
  The constructor on a string without sign. The string is cut at the first \<^verbatim>\<open>e\<close> or
  \<^verbatim>\<open>E\<close> into mantissa and exponent, the mantissa at its first point into integer and
  fraction digits. The value is the number written by the digits, times ten to the
  power of the exponent minus the number of fraction digits.
\<close>

definition cut :: "(char \<Rightarrow> bool) \<Rightarrow> string \<Rightarrow> string \<times> string option" where
  "cut sep s =
     (takeWhile (\<lambda>ch. \<not> sep ch) s,
      case dropWhile (\<lambda>ch. \<not> sep ch) s of [] \<Rightarrow> None | _ # rest \<Rightarrow> Some rest)"

definition parse_exponent :: "string option \<Rightarrow> int option" where
  "parse_exponent x =
     (case x of
        None \<Rightarrow> Some 0
      | Some s \<Rightarrow>
          (case s of
             [] \<Rightarrow> None
           | ch # ds \<Rightarrow>
               if ch = CHR ''+'' then (if decimal ds then Some (int (nat_of_digits ds)) else None)
               else if ch = CHR ''-'' then (if decimal ds then Some (- int (nat_of_digits ds)) else None)
               else if decimal s then Some (int (nat_of_digits s)) else None))"

definition parse_mantissa :: "string \<Rightarrow> (string \<times> string) option" where
  "parse_mantissa m =
     (case cut (\<lambda>ch. ch = CHR ''.'') m of
        (ip, None) \<Rightarrow> if decimal ip then Some (ip, []) else None
      | (ip, Some fp) \<Rightarrow>
          if list_all is_digit fp \<and> (decimal ip \<or> (ip = [] \<and> fp \<noteq> [])) then Some (ip, fp) else None)"

definition scale :: "nat \<Rightarrow> int \<Rightarrow> BigNumber" where
  "scale m k =
     (if 0 \<le> k then BN (int (m * 10 ^ nat k))
      else if 10 ^ nat (- k) dvd m then BN (int (m div 10 ^ nat (- k)))
      else NaN)"

definition parse_unsigned :: "string \<Rightarrow> BigNumber" where
  "parse_unsigned s =
     (case cut (\<lambda>ch. ch = CHR ''e'' \<or> ch = CHR ''E'') s of
        (m, x) \<Rightarrow>
          (case (parse_mantissa m, parse_exponent x) of
             (Some (ip, fp), Some e) \<Rightarrow> scale (nat_of_digits (ip @ fp)) (e - int (length fp))
           | _ \<Rightarrow> NaN))"

definition negated :: "BigNumber \<Rightarrow> BigNumber" where
  "negated x = (case x of BN i \<Rightarrow> BN (- i) | NaN \<Rightarrow> NaN)"

definition BigNumber_of :: "string \<Rightarrow> BigNumber" where
  "BigNumber_of s =
     (case s of
        [] \<Rightarrow> NaN
      | ch # rest \<Rightarrow> if ch = CHR ''-'' then negated (parse_unsigned rest) else parse_unsigned s)"

definition plus_bn :: "BigNumber \<Rightarrow> BigNumber \<Rightarrow> BigNumber" where
  "plus_bn x y = (case (x, y) of (BN a, BN b) \<Rightarrow> BN (a + b) | _ \<Rightarrow> NaN)"

definition minus_bn :: "BigNumber \<Rightarrow> BigNumber \<Rightarrow> BigNumber" where
  "minus_bn x y = (case (x, y) of (BN a, BN b) \<Rightarrow> BN (a - b) | _ \<Rightarrow> NaN)"

text \<open>
  \<^verbatim>\<open>toString\<close>: plain digits up to 21 digits, exponential notation from 22 digits on
  (decimal exponent 21 and above): the digits without their trailing zeros, a point
  after the first digit when more follow, \<^verbatim>\<open>e+\<close> and the exponent.
\<close>

definition strip_zeros :: "string \<Rightarrow> string" where
  "strip_zeros ds = rev (dropWhile (\<lambda>ch. ch = CHR ''0'') (rev ds))"

definition toExponential :: "string \<Rightarrow> string" where
  "toExponential ds =
     (case strip_zeros ds of
        [] \<Rightarrow> []
      | d # rest \<Rightarrow>
          (d # (if rest = [] then [] else CHR ''.'' # rest)) @ ''e+'' @ digits_of_nat (length ds - 1))"

definition digits_toString :: "nat \<Rightarrow> string" where
  "digits_toString n =
     (let ds = digits_of_nat n in if 21 \<le> length ds - 1 then toExponential ds else ds)"

definition toString :: "BigNumber \<Rightarrow> string" where
  "toString x =
     (case x of
        NaN \<Rightarrow> ''NaN''
      | BN i \<Rightarrow> (if i < 0 then ''-'' else []) @ digits_toString (nat \<bar>i\<bar>))"

text \<open>The expression \<^verbatim>\<open>new BigNumber(a).plus(new BigNumber(b)).toString()\<close> of the source.\<close>

definition add_quantities :: "string \<Rightarrow> string \<Rightarrow> string" where
  "add_quantities a b = toString (plus_bn (BigNumber_of a) (BigNumber_of b))"

section \<open>buildHasuraSchema\<close>

text \<open>
  A GraphQL schema is modelled by its type map: the named types with a description \<open>'t\<close>
  of each, and whether an executor is attached. \<^verbatim>\<open>getType\<close> gives the type of a name, or
  nothing. \<^verbatim>\<open>introspectSchema\<close> and \<^verbatim>\<open>wrapSchema\<close> belong to the package
  @graphql-tools/wrap: the first delivers the schema of the remote server, or fails; the
  second, called without transforms as here, keeps the types and attaches the executor.
  The executor of the source logs a failed fetch at error level and throws it again; a
  failure after the fetch (reading the body, the introspection itself) is not logged.
\<close>

record 't GraphQLSchema =
  typeMap :: "(string \<times> 't) list"
  executable :: bool

definition getType :: "'t GraphQLSchema \<Rightarrow> string \<Rightarrow> 't option" where
  "getType schema t = map_of (typeMap schema) t"

definition wrapSchema :: "'t GraphQLSchema \<Rightarrow> 't GraphQLSchema" where
  "wrapSchema schema = schema\<lparr>executable := True\<rparr>"

datatype 't introspection =
    Fetch_failed error
  | Introspection_failed error
  | Introspected "'t GraphQLSchema"

definition coreTypes :: "string list" where
  "coreTypes = [''Block'', ''Cardano'', ''Epoch'', ''Block'', ''Transaction'']"

fun check_types :: "string list \<Rightarrow> 't GraphQLSchema \<Rightarrow> error + 't GraphQLSchema" where
  "check_types [] schema = Inr schema"
| "check_types (t # ts) schema =
     (case getType schema t of
        None \<Rightarrow> Inl (Error (''Remote schema is missing '' @ t))
      | Some gqlType \<Rightarrow> check_types ts schema)"

definition buildHasuraSchema ::
  "'t introspection \<Rightarrow> HasuraClient \<Rightarrow> (error + 't GraphQLSchema) \<times> HasuraClient"
where
  "buildHasuraSchema introspected c =
     (case introspected of
        Fetch_failed e \<Rightarrow> (Inl e, log_line Severe (message e) c)
      | Introspection_failed e \<Rightarrow> (Inl e, c)
      | Introspected schema \<Rightarrow> (check_types coreTypes (wrapSchema schema), c))"

section \<open>The producer of the circulating supply\<close>

text \<open>
  A call of a JavaScript function completes by returning a value or by throwing. A
  promise, once settled, is fulfilled or rejected. A call of an \<^verbatim>\<open>async\<close> function
  always returns: what its body returns or throws (an awaited rejection included)
  settles the promise it returns. A \<^verbatim>\<open>try\<close> block catches what the calls in it
  throw; a rejected promise that is returned without \<^verbatim>\<open>await\<close> is a value, not a throw.
  Awaiting a call, as the fetcher does with its producer, gives the value or the error.
\<close>

datatype 'a promise = Fulfilled 'a | Rejected error

datatype 'a completion = Returned 'a | Thrown error

definition async :: "error + 'a \<Rightarrow> 'a promise completion" where
  "async body = Returned (case body of Inl e \<Rightarrow> Rejected e | Inr v \<Rightarrow> Fulfilled v)"

fun awaited :: "'a promise option completion \<Rightarrow> error + 'a option" where
  "awaited (Thrown e) = Inl e"
| "awaited (Returned None) = Inr None"
| "awaited (Returned (Some (Fulfilled v))) = Inr (Some v)"
| "awaited (Returned (Some (Rejected e))) = Inl e"

text \<open>
  \<^verbatim>\<open>getAdaCirculatingSupply\<close>: the query for the three sums fails or delivers them (as
  strings); the supply is \<^verbatim>\<open>utxos.plus(rewards.minus(withdrawals)).toString()\<close>.
\<close>

record supply_sums =
  rewards_amount :: string
  utxos_value :: string
  withdrawals_amount :: string

definition getAdaCirculatingSupply :: "error + supply_sums \<Rightarrow> string promise completion" where
  "getAdaCirculatingSupply query_result =
     async
       (case query_result of
          Inl e \<Rightarrow> Inl e
        | Inr totals \<Rightarrow>
            (let rewards = BigNumber_of (rewards_amount totals);
                 utxos = BigNumber_of (utxos_value totals);
                 withdrawals = BigNumber_of (withdrawals_amount totals);
                 withdrawableRewards = minus_bn rewards withdrawals
             in Inr (toString (plus_bn utxos withdrawableRewards))))"

definition not_near_tip :: string where
  "not_near_tip = ''currentEpoch is only available when close to the chain tip. This is expected during the initial chain-sync.''"

text \<open>
  The producer handed to the \<^verbatim>\<open>DataFetcher\<close> of the circulating supply: an arrow function
  that is not \<^verbatim>\<open>async\<close>, with \<^verbatim>\<open>return this.getAdaCirculatingSupply()\<close> in a \<^verbatim>\<open>try\<close>
  block. A producer that ends without \<^verbatim>\<open>return\<close> gives \<^verbatim>\<open>undefined\<close>: \<open>None\<close>.
\<close>

definition producer ::
  "error + supply_sums \<Rightarrow> HasuraClient \<Rightarrow> string promise option completion \<times> HasuraClient"
where
  "producer query_result c =
     (case getAdaCirculatingSupply query_result of
        Returned p \<Rightarrow> (Returned (Some p), c)
      | Thrown e \<Rightarrow>
          if message e \<noteq> not_near_tip then (Thrown e, c)
          else (Returned None, log_line Debug (message e) c))"

section \<open>getPaymentAddressSummary\<close>

text \<open>
  The rows of the query. Every field of an asset but its id may be absent. A token of a
  transaction output has the same fields as an asset balance (the source stores the
  token itself as the balance of its asset), so both are one record type.
\<close>

record Asset =
  assetId :: string
  assetName :: "string option"
  description :: "string option"
  fingerprint :: "string option"
  logo :: "string option"
  metadataHash :: "string option"
  name :: "string option"
  ticker :: "string option"
  url :: "string option"
  policyId :: "string option"

record AssetBalance =
  asset :: Asset
  quantity :: string

type_synonym Token = AssetBalance

record TransactionOutput =
  utxo_value :: string
  tokens :: "Token list"

record PaymentAddressSummary =
  assetBalances :: "AssetBalance list"
  utxosCount :: int

record summary_rows =
  utxos :: "TransactionOutput list"
  utxos_aggregate_count :: int

text \<open>
  A JavaScript \<^verbatim>\<open>Map\<close> keeps its keys in the order of their first insertion:
  an association list. \<^verbatim>\<open>set\<close> replaces the value of a key that is present in place and
  appends a new key.
\<close>

type_synonym balances = "(string \<times> AssetBalance) list"

fun map_set :: "string \<Rightarrow> AssetBalance \<Rightarrow> balances \<Rightarrow> balances" where
  "map_set k v [] = [(k, v)]"
| "map_set k v (p # ps) = (if fst p = k then (k, v) # ps else p # map_set k v ps)"

definition map_get :: "balances \<Rightarrow> string \<Rightarrow> AssetBalance option" where
  "map_get m k = map_of m k"

definition map_values :: "balances \<Rightarrow> AssetBalance list" where
  "map_values m = map snd m"

definition ada_asset :: Asset where
  "ada_asset =
     \<lparr>assetId = ''ada'', assetName = Some ''ada'', description = None, fingerprint = None,
      logo = None, metadataHash = None, name = Some ''ada'', ticker = None, url = None,
      policyId = Some []\<rparr>"

definition add_value :: "string \<Rightarrow> balances \<Rightarrow> balances" where
  "add_value v m =
     (case map_get m ''ada'' of
        Some current \<Rightarrow>
          map_set ''ada'' (current\<lparr>quantity := add_quantities (quantity current) v\<rparr>) m
      | None \<Rightarrow> map_set ''ada'' \<lparr>asset = ada_asset, quantity = v\<rparr> m)"

definition add_token :: "Token \<Rightarrow> balances \<Rightarrow> balances" where
  "add_token token m =
     (case map_get m (assetId (asset token)) of
        Some current \<Rightarrow>
          map_set (assetId (asset token))
            (current\<lparr>quantity := add_quantities (quantity current) (quantity token)\<rparr>) m
      | None \<Rightarrow> map_set (assetId (asset token)) token m)"

definition add_utxo :: "balances \<Rightarrow> TransactionOutput \<Rightarrow> balances" where
  "add_utxo m utxo = foldl (\<lambda>m token. add_token token m) (add_value (utxo_value utxo) m) (tokens utxo)"

definition aggregate :: "TransactionOutput list \<Rightarrow> balances" where
  "aggregate rows = foldl add_utxo [] rows"

definition getPaymentAddressSummary :: "error + summary_rows \<Rightarrow> error + PaymentAddressSummary" where
  "getPaymentAddressSummary query_result =
     (case query_result of
        Inl e \<Rightarrow> Inl e
      | Inr data \<Rightarrow>
          Inr \<lparr>assetBalances = map_values (aggregate (utxos data)),
               utxosCount = utxos_aggregate_count data\<rparr>)"

subsection \<open>Vocabulary for the properties of the aggregation\<close>

text \<open>
  The loop of the source treats the value of a row and each of its tokens alike: an
  entry (a key and a balance) is added to the map. \<open>entries rows\<close> lists the entries in
  the order of the loop, \<open>add_entry\<close> is the common step.
\<close>

definition ada_balance :: "string \<Rightarrow> AssetBalance" where
  "ada_balance v = \<lparr>asset = ada_asset, quantity = v\<rparr>"

definition entries_of :: "TransactionOutput \<Rightarrow> (string \<times> AssetBalance) list" where
  "entries_of utxo =
     (''ada'', ada_balance (utxo_value utxo)) #
     map (\<lambda>token. (assetId (asset token), token)) (tokens utxo)"

definition entries :: "TransactionOutput list \<Rightarrow> (string \<times> AssetBalance) list" where
  "entries rows = concat (map entries_of rows)"

definition add_entry :: "balances \<Rightarrow> string \<times> AssetBalance \<Rightarrow> balances" where
  "add_entry m e =
     (case map_get m (fst e) of
        Some current \<Rightarrow>
          map_set (fst e) (current\<lparr>quantity := add_quantities (quantity current) (quantity (snd e))\<rparr>) m
      | None \<Rightarrow> map_set (fst e) (snd e) m)"

text \<open>
  Well-formed rows carry decimal numerals. \<open>ada_total\<close> and \<open>token_total k\<close> are the sums
  a balance is compared with: of the values of all rows, and of the quantities of all
  tokens with asset id \<open>k\<close>.
\<close>

definition well_formed :: "TransactionOutput list \<Rightarrow> bool" where
  "well_formed rows =
     list_all (\<lambda>utxo. decimal (utxo_value utxo) \<and> list_all (\<lambda>token. decimal (quantity token)) (tokens utxo)) rows"

definition all_tokens :: "TransactionOutput list \<Rightarrow> Token list" where
  "all_tokens rows = concat (map tokens rows)"

definition no_ada_token :: "TransactionOutput list \<Rightarrow> bool" where
  "no_ada_token rows = list_all (\<lambda>token. assetId (asset token) \<noteq> ''ada'') (all_tokens rows)"

definition ada_total :: "TransactionOutput list \<Rightarrow> nat" where
  "ada_total rows = sum_list (map (\<lambda>utxo. nat_of_digits (utxo_value utxo)) rows)"

definition token_total :: "string \<Rightarrow> TransactionOutput list \<Rightarrow> nat" where
  "token_total k rows =
     sum_list (map (\<lambda>token. nat_of_digits (quantity token))
        (filter (\<lambda>token. assetId (asset token) = k) (all_tokens rows)))"

text \<open>
  \<open>same_rows\<close>: two sequences hold the same rows up to the order of the rows and the
  order of the tokens within each row. \<open>one_asset_per_id\<close>: tokens with the same asset id
  carry the same asset (the rows of one query describe an asset once).
\<close>

definition same_rows :: "TransactionOutput list \<Rightarrow> TransactionOutput list \<Rightarrow> bool" where
  "same_rows rows rows' =
     (mset (map (\<lambda>utxo. (utxo_value utxo, mset (tokens utxo))) rows)
      = mset (map (\<lambda>utxo. (utxo_value utxo, mset (tokens utxo))) rows'))"

definition one_asset_per_id :: "TransactionOutput list \<Rightarrow> bool" where
  "one_asset_per_id rows =
     (\<forall>t \<in> set (all_tokens rows). \<forall>t' \<in> set (all_tokens rows).
        assetId (asset t) = assetId (asset t') \<longrightarrow> asset t = asset t')"

text \<open>
  The value of a list of quantities in the arithmetic of the package: \<open>NaN\<close> as soon as
  one of them is read as \<open>NaN\<close>, the sum of the integers otherwise.
\<close>

fun bn_value :: "BigNumber \<Rightarrow> int" where
  "bn_value (BN i) = i"
| "bn_value NaN = 0"

definition bn_total :: "string list \<Rightarrow> BigNumber" where
  "bn_total qs =
     (if list_all (\<lambda>q. BigNumber_of q \<noteq> NaN) qs
      then BN (sum_list (map (\<lambda>q. bn_value (BigNumber_of q)) qs))
      else NaN)"

text \<open>The balance that the entries with key \<open>k\<close> add up to.\<close>

definition balance_at :: "string \<Rightarrow> (string \<times> AssetBalance) list \<Rightarrow> AssetBalance option" where
  "balance_at k es =
     (case filter (\<lambda>e. fst e = k) es of
        [] \<Rightarrow> None
      | e # rest \<Rightarrow>
          Some ((snd e)\<lparr>quantity := foldl add_quantities (quantity (snd e)) (map (\<lambda>e. quantity (snd e)) rest)\<rparr>))"

text \<open>The example of the specification: two rows, the assets A and B.\<close>

definition token_of :: "string \<Rightarrow> string \<Rightarrow> Token" where
  "token_of k q =
     \<lparr>asset = \<lparr>assetId = k, assetName = None, description = None, fingerprint = None,
               logo = None, metadataHash = None, name = None, ticker = None, url = None,
               policyId = None\<rparr>,
      quantity = q\<rparr>"

definition example_rows :: "TransactionOutput list" where
  "example_rows =
     [\<lparr>utxo_value = ''1000000'', tokens = [token_of ''A'' ''5'']\<rparr>,
      \<lparr>utxo_value = ''2000000'', tokens = [token_of ''A'' ''7'', token_of ''B'' ''1'']\<rparr>]"

definition total_of :: "string \<Rightarrow> TransactionOutput list \<Rightarrow> nat" where
  "total_of k rows = (if k = ''ada'' then ada_total rows else token_total k rows)"

text \<open>The rows of the example in another order, the tokens of the second row exchanged.\<close>

definition example_rows_permuted :: "TransactionOutput list" where
  "example_rows_permuted =
     [\<lparr>utxo_value = ''2000000'', tokens = [token_of ''B'' ''1'', token_of ''A'' ''7'']\<rparr>,
      \<lparr>utxo_value = ''1000000'', tokens = [token_of ''A'' ''5'']\<rparr>]"

section \<open>Properties of the schema synchronisation\<close>

subsection \<open>A command, a unit and the retrier on a client left alone\<close>

lemma hasuraCli_alone:
  "hasuraCli cl alone command c =
     ((case exec_error (cl (length (cli_calls c))) of Some e \<Rightarrow> Inl e | None \<Rightarrow> Inr ()),
      c\<lparr>cli_calls := cli_calls c @ [command],
        logger := logger c @ [(Debug, stdout (cl (length (cli_calls c))))]\<rparr>)"
  by (simp add: hasuraCli_def alone_def log_line_def Let_def)

lemma hasuraCli_flag:
  "applyingSchemaAndMetadata (snd (hasuraCli cl alone command c)) = applyingSchemaAndMetadata c"
  by (simp add: hasuraCli_alone)

lemma unit_of_alone:
  "unit_of cl alone a b c =
     (let i = length (cli_calls c) in
      if failed cl i
      then (Inl (the (exec_error (cl i))),
            c\<lparr>cli_calls := cli_calls c @ [a], logger := logger c @ [(Debug, stdout (cl i))]\<rparr>)
      else ((case exec_error (cl (Suc i)) of Some e \<Rightarrow> Inl e | None \<Rightarrow> Inr ()),
            c\<lparr>cli_calls := cli_calls c @ [a, b],
              logger := logger c @ [(Debug, stdout (cl i)), (Debug, stdout (cl (Suc i)))]\<rparr>))"
  by (auto simp add: unit_of_def hasuraCli_alone failed_def Let_def)

lemma unit_of_flag:
  "applyingSchemaAndMetadata (snd (unit_of cl alone a b c)) = applyingSchemaAndMetadata c"
  by (simp add: unit_of_def hasuraCli_alone split: option.splits)

lemma onFailed_flag:
  "applyingSchemaAndMetadata (onFailedAttemptFor operation k e c) = applyingSchemaAndMetadata c"
  by (simp add: onFailedAttemptFor_def log_line_def)

lemma onFailed_calls:
  "cli_calls (onFailedAttemptFor operation k e c) = cli_calls c"
  by (simp add: onFailedAttemptFor_def log_line_def)

lemma pRetry_from_flag:
  "applyingSchemaAndMetadata
     (snd (pRetry_from k n (unit_of cl alone a b) (onFailedAttemptFor operation) c))
   = applyingSchemaAndMetadata c"
proof (induction n arbitrary: k c)
  case 0
  show ?case using unit_of_flag [of cl a b c]
    by (auto simp: onFailed_flag split: prod.splits sum.splits)
next
  case (Suc n)
  show ?case using unit_of_flag [of cl a b c]
    by (auto simp: Suc.IH onFailed_flag split: prod.splits sum.splits)
qed

lemmas run_defs = applySchemaAndMetadata_def pRetry_def retry_policy_def migrations_def
  metadata_def unit_of_alone failed_def new_client_def onFailedAttemptFor_def log_line_def
  eval_nat_numeral Let_def

subsection \<open>Tasks that call applySchemaAndMetadata while a call is in flight\<close>

lemma skipped_when_applying:
  "applyingSchemaAndMetadata c \<Longrightarrow> applySchemaAndMetadata cl others c = (Inr (), c)"
  by (simp add: applySchemaAndMetadata_def)

lemma hasuraCli_skipping:
  assumes "\<And>c'. applyingSchemaAndMetadata c' \<Longrightarrow> others c' = c'"
    and "applyingSchemaAndMetadata c"
  shows "hasuraCli cl others command c = hasuraCli cl alone command c"
  using assms by (simp add: hasuraCli_def alone_def Let_def)

lemma unit_of_skipping:
  assumes "\<And>c'. applyingSchemaAndMetadata c' \<Longrightarrow> others c' = c'"
    and "applyingSchemaAndMetadata c"
  shows "unit_of cl others a b c = unit_of cl alone a b c"
proof -
  have 1: "hasuraCli cl others a c = hasuraCli cl alone a c"
    using assms by (rule hasuraCli_skipping)
  have 2: "applyingSchemaAndMetadata (snd (hasuraCli cl alone a c))"
    using assms(2) by (simp add: hasuraCli_flag)
  show ?thesis
    unfolding unit_of_def 1
    using hasuraCli_skipping [OF assms(1) 2, of cl b]
    by (auto split: prod.splits sum.splits)
qed

lemma pRetry_from_skipping:
  assumes "\<And>c'. applyingSchemaAndMetadata c' \<Longrightarrow> others c' = c'"
  shows "applyingSchemaAndMetadata c \<Longrightarrow>
    pRetry_from k n (unit_of cl others a b) (onFailedAttemptFor operation) c =
    pRetry_from k n (unit_of cl alone a b) (onFailedAttemptFor operation) c"
proof (induction n arbitrary: k c)
  case 0
  then show ?case by (simp add: unit_of_skipping [OF assms])
next
  case (Suc n)
  have flag: "applyingSchemaAndMetadata
      (onFailedAttemptFor operation k e (snd (unit_of cl alone a b c)))" for e
    using Suc.prems by (simp add: onFailed_flag unit_of_flag)
  show ?case
    using Suc.prems Suc.IH [OF flag]
    by (auto simp add: unit_of_skipping [OF assms] split: prod.splits sum.splits)
qed

lemma apply_skipping:
  assumes skip: "\<And>c'. applyingSchemaAndMetadata c' \<Longrightarrow> others c' = c'"
    and idle: "\<not> applyingSchemaAndMetadata c"
  shows "applySchemaAndMetadata cl others c = applySchemaAndMetadata cl alone c"
proof -
  let ?c0 = "c\<lparr>applyingSchemaAndMetadata := True\<rparr>"
  have m: "pRetry (migrations cl others) (retry_policy n1) ?c0
         = pRetry (migrations cl alone) (retry_policy n1) ?c0" for n1
    unfolding pRetry_def migrations_def retry_policy_def
    by (simp add: pRetry_from_skipping [OF skip])
  have mflag: "applyingSchemaAndMetadata
      (snd (pRetry (migrations cl alone) (retry_policy n1) ?c0))" for n1
    unfolding pRetry_def migrations_def retry_policy_def
    by (simp add: pRetry_from_flag)
  have d: "applyingSchemaAndMetadata c1 \<Longrightarrow> pRetry (metadata cl others) (retry_policy n2) c1
         = pRetry (metadata cl alone) (retry_policy n2) c1" for n2 c1
    unfolding pRetry_def metadata_def retry_policy_def
    by (simp add: pRetry_from_skipping [OF skip])
  obtain r1 c1 where run: "pRetry (migrations cl alone)
      (retry_policy ''Applying PostgreSQL schema migrations'') ?c0 = (r1, c1)"
    by (cases "pRetry (migrations cl alone)
      (retry_policy ''Applying PostgreSQL schema migrations'') ?c0")
  have "applyingSchemaAndMetadata c1"
    using mflag [of "''Applying PostgreSQL schema migrations''"] run by simp
  then show ?thesis
    using idle run by (cases r1) (simp_all add: applySchemaAndMetadata_def m d)
qed

text \<open>
  Claim C7. A call of applySchemaAndMetadata made while the flag is set returns at once:
  no error, no command, the client unchanged. And when other tasks call
  applySchemaAndMetadata (with any command line and any further tasks of their own) at
  any selection \<open>issued\<close> of the points where a first call awaits a command, the first
  call ends with the same result and the same client, commands included, as when it
  runs alone: only one apply sequence is executed.
\<close>

theorem reentrant_call_is_skipped:
  "(applyingSchemaAndMetadata c \<longrightarrow> applySchemaAndMetadata cl others c = (Inr (), c)) \<and>
   (\<not> applyingSchemaAndMetadata c \<longrightarrow>
      applySchemaAndMetadata cl
        (\<lambda>c'. if issued c' then snd (applySchemaAndMetadata cl' others' c') else c') c
      = applySchemaAndMetadata cl alone c)"
proof (intro conjI impI)
  assume "applyingSchemaAndMetadata c"
  then show "applySchemaAndMetadata cl others c = (Inr (), c)"
    by (simp add: applySchemaAndMetadata_def)
next
  assume idle: "\<not> applyingSchemaAndMetadata c"
  define second where
    "second = (\<lambda>c'. if issued c' then snd (applySchemaAndMetadata cl' others' c') else c')"
  have skip: "\<And>c'. applyingSchemaAndMetadata c' \<Longrightarrow> second c' = c'"
    by (simp add: second_def applySchemaAndMetadata_def)
  have "applySchemaAndMetadata cl second c = applySchemaAndMetadata cl alone c"
    using skip idle by (rule apply_skipping)
  then show "applySchemaAndMetadata cl
        (\<lambda>c'. if issued c' then snd (applySchemaAndMetadata cl' others' c') else c') c
      = applySchemaAndMetadata cl alone c"
    by (simp add: second_def)
qed

text \<open>
  The witness: a client whose flag is set, and a fresh client on which a second call is
  issued at every await of the first while the second migration command fails once.
\<close>

theorem reentrant_call_is_skipped_witness:
  "applySchemaAndMetadata (failing_cli ''exit 1'') alone
       (new_client\<lparr>applyingSchemaAndMetadata := True\<rparr>)
     = (Inr (), new_client\<lparr>applyingSchemaAndMetadata := True\<rparr>) \<and>
   applySchemaAndMetadata (failing_once 1)
       (\<lambda>c'. if True then snd (applySchemaAndMetadata (failing_once 1) alone c') else c') new_client
     = applySchemaAndMetadata (failing_once 1) alone new_client \<and>
   cli_calls (snd (applySchemaAndMetadata (failing_once 1) alone new_client))
     = [migrate_down, migrate_up, migrate_down, migrate_up, metadata_clear, metadata_apply]"
proof -
  have 1: "applyingSchemaAndMetadata (new_client\<lparr>applyingSchemaAndMetadata := True\<rparr>)"
    by simp
  have 2: "\<not> applyingSchemaAndMetadata new_client"
    by (simp add: new_client_def)
  have 3: "cli_calls (snd (applySchemaAndMetadata (failing_once 1) alone new_client))
     = [migrate_down, migrate_up, migrate_down, migrate_up, metadata_clear, metadata_apply]"
    by (simp add: run_defs failing_once_def)
  show ?thesis
    using reentrant_call_is_skipped [of "new_client\<lparr>applyingSchemaAndMetadata := True\<rparr>"
        "failing_cli ''exit 1''" alone]
      reentrant_call_is_skipped [of new_client "failing_once 1" alone "\<lambda>_. True"
        "failing_once 1" alone]
      1 2 3
    by simp
qed

subsection \<open>The commands of a retried unit\<close>

text \<open>One attempt of a unit: the commands it starts, and how it ends.\<close>

lemma attempt_cases:
  assumes "unit_of cl alone a b c = (r, c1)"
  obtains
    (first) "failed cl (length (cli_calls c))" "cli_calls c1 = cli_calls c @ [a]" "isl r"
  | (second) "\<not> failed cl (length (cli_calls c))" "failed cl (Suc (length (cli_calls c)))"
       "cli_calls c1 = cli_calls c @ [a, b]" "isl r"
  | (complete) "\<not> failed cl (length (cli_calls c))" "\<not> failed cl (Suc (length (cli_calls c)))"
       "cli_calls c1 = cli_calls c @ [a, b]" "r = Inr ()"
  using assms
  by (auto simp: unit_of_alone Let_def failed_def split: if_splits option.splits)

lemma retry_trace:
  "pRetry_from k n (unit_of cl alone a b) (onFailedAttemptFor operation) c = (r, c') \<Longrightarrow>
   \<exists>tr. cli_calls c' = cli_calls c @ tr \<and> tr \<noteq> [] \<and> hd tr = a
      \<and> follows cl (length (cli_calls c)) a b tr
      \<and> (if isl r then failed cl (length (cli_calls c) + length tr - 1)
          else settled cl (length (cli_calls c)) b tr)"
proof (induction n arbitrary: k c)
  case 0
  obtain r1 c1 where u: "unit_of cl alone a b c = (r1, c1)"
    by (cases "unit_of cl alone a b c")
  from u show ?case
  proof (cases rule: attempt_cases)
    case first
    with u 0 show ?thesis
      by (cases r1) (auto simp: onFailed_calls)
  next
    case second
    with u 0 show ?thesis
      by (cases r1) (auto simp: onFailed_calls)
  next
    case complete
    with u 0 show ?thesis
      by (auto simp: settled_def)
  qed
next
  case (Suc n)
  obtain r1 c1 where u: "unit_of cl alone a b c = (r1, c1)"
    by (cases "unit_of cl alone a b c")
  from u show ?case
  proof (cases rule: attempt_cases)
    case first
    then obtain e where r1: "r1 = Inl e" by (cases r1) auto
    let ?c2 = "onFailedAttemptFor operation k e c1"
    from Suc.prems u r1 have
      "pRetry_from (Suc k) n (unit_of cl alone a b) (onFailedAttemptFor operation) ?c2 = (r, c')"
      by simp
    from Suc.IH [OF this] obtain tr where tr:
      "cli_calls c' = cli_calls ?c2 @ tr" "tr \<noteq> []" "hd tr = a"
      "follows cl (length (cli_calls ?c2)) a b tr"
      "if isl r then failed cl (length (cli_calls ?c2) + length tr - 1)
       else settled cl (length (cli_calls ?c2)) b tr"
      by blast
    obtain y ys where ys: "tr = y # ys" using tr(2) by (cases tr) auto
    show ?thesis
      apply (rule exI [of _ "a # tr"])
      using tr first ys
      by (auto simp: onFailed_calls settled_def)
  next
    case second
    then obtain e where r1: "r1 = Inl e" by (cases r1) auto
    let ?c2 = "onFailedAttemptFor operation k e c1"
    from Suc.prems u r1 have
      "pRetry_from (Suc k) n (unit_of cl alone a b) (onFailedAttemptFor operation) ?c2 = (r, c')"
      by simp
    from Suc.IH [OF this] obtain tr where tr:
      "cli_calls c' = cli_calls ?c2 @ tr" "tr \<noteq> []" "hd tr = a"
      "follows cl (length (cli_calls ?c2)) a b tr"
      "if isl r then failed cl (length (cli_calls ?c2) + length tr - 1)
       else settled cl (length (cli_calls ?c2)) b tr"
      by blast
    obtain y ys where ys: "tr = y # ys" using tr(2) by (cases tr) auto
    show ?thesis
      apply (rule exI [of _ "a # b # tr"])
      using tr second ys
      by (auto simp: onFailed_calls settled_def)
  next
    case complete
    with u Suc.prems show ?thesis
      by (auto simp: settled_def)
  qed
qed

lemma follows_set:
  "follows cl i a b tr \<Longrightarrow> tr \<noteq> [] \<Longrightarrow> hd tr \<in> {a, b} \<Longrightarrow> set tr \<subseteq> {a, b}"
proof (induction cl i a b tr rule: follows.induct)
  case (1 cl i a b x y tr)
  then show ?case by (auto split: if_splits)
qed auto

lemma pRetry_unit_trace:
  assumes "pRetry (unit_of cl alone a b) (retry_policy operation) c = (r, c')"
  shows "\<exists>tr. cli_calls c' = cli_calls c @ tr \<and> tr \<noteq> [] \<and> set tr \<subseteq> {a, b}
      \<and> retried_whole cl (length (cli_calls c)) a b tr
      \<and> (if isl r then failed cl (length (cli_calls c) + length tr - 1)
          else settled cl (length (cli_calls c)) b tr)
      \<and> applyingSchemaAndMetadata c' = applyingSchemaAndMetadata c"
proof -
  from assms have run:
    "pRetry_from 1 9 (unit_of cl alone a b) (onFailedAttemptFor operation) c = (r, c')"
    by (simp add: pRetry_def retry_policy_def)
  from retry_trace [OF run] obtain tr where tr:
    "cli_calls c' = cli_calls c @ tr" "tr \<noteq> []" "hd tr = a"
    "follows cl (length (cli_calls c)) a b tr"
    "if isl r then failed cl (length (cli_calls c) + length tr - 1)
     else settled cl (length (cli_calls c)) b tr"
    by blast
  have "set tr \<subseteq> {a, b}"
    using follows_set [OF tr(4) tr(2)] tr(3) by simp
  moreover have "retried_whole cl (length (cli_calls c)) a b tr"
    using tr by (cases tr) (simp_all add: retried_whole_def)
  moreover have "applyingSchemaAndMetadata c' = applyingSchemaAndMetadata c"
    using pRetry_from_flag [of 1 9 cl a b operation c] run by simp
  ultimately show ?thesis using tr by blast
qed

text \<open>
  Claim C8. In a run of applySchemaAndMetadata (on a client whose flag is clear and that
  is left alone) the commands started are a list \<open>ms\<close> of migration commands followed by
  a list \<open>ds\<close> of metadata commands. A metadata command is started only when the
  migration unit has completed (\<open>ms\<close> ends with a successful \<^verbatim>\<open>migrate apply --up all\<close>).
  Each unit is retried as a whole: its list starts with the unit's first command, a
  failed command (the first or the second of the unit) is followed by the unit's first
  command, and a successful first command by the second.
\<close>

theorem units_in_sequence:
  assumes "\<not> applyingSchemaAndMetadata c"
    and "applySchemaAndMetadata cl alone c = (r, c')"
  shows "\<exists>ms ds. cli_calls c' = cli_calls c @ ms @ ds
      \<and> ms \<noteq> [] \<and> set ms \<subseteq> {migrate_down, migrate_up}
      \<and> set ds \<subseteq> {metadata_clear, metadata_apply}
      \<and> retried_whole cl (length (cli_calls c)) migrate_down migrate_up ms
      \<and> retried_whole cl (length (cli_calls c) + length ms) metadata_clear metadata_apply ds
      \<and> (ds = [] \<or> settled cl (length (cli_calls c)) migrate_up ms)"
proof -
  let ?c0 = "c\<lparr>applyingSchemaAndMetadata := True\<rparr>"
  obtain r1 c1 where m: "pRetry (migrations cl alone)
      (retry_policy ''Applying PostgreSQL schema migrations'') ?c0 = (r1, c1)"
    by (cases "pRetry (migrations cl alone)
      (retry_policy ''Applying PostgreSQL schema migrations'') ?c0")
  from pRetry_unit_trace [OF m [unfolded migrations_def]] obtain ms where ms0:
    "cli_calls c1 = cli_calls ?c0 @ ms" "ms \<noteq> []" "set ms \<subseteq> {migrate_down, migrate_up}"
    "retried_whole cl (length (cli_calls ?c0)) migrate_down migrate_up ms"
    "if isl r1 then failed cl (length (cli_calls ?c0) + length ms - 1)
     else settled cl (length (cli_calls ?c0)) migrate_up ms"
    by blast
  then have ms:
    "cli_calls c1 = cli_calls c @ ms" "ms \<noteq> []" "set ms \<subseteq> {migrate_down, migrate_up}"
    "retried_whole cl (length (cli_calls c)) migrate_down migrate_up ms"
    "if isl r1 then failed cl (length (cli_calls c) + length ms - 1)
     else settled cl (length (cli_calls c)) migrate_up ms"
    by (simp_all cong: if_cong)
  show ?thesis
  proof (cases r1)
    case (Inl e)
    with assms m have "c' = c1"
      by (simp add: applySchemaAndMetadata_def)
    with ms show ?thesis
      by (intro exI [of _ ms] exI [of _ "[]"]) (simp add: retried_whole_def)
  next
    case (Inr u)
    obtain r2 c2 where d: "pRetry (metadata cl alone)
        (retry_policy ''Applying Hasura metadata'') c1 = (r2, c2)"
      by (cases "pRetry (metadata cl alone) (retry_policy ''Applying Hasura metadata'') c1")
    from pRetry_unit_trace [OF d [unfolded metadata_def]] obtain ds where ds:
      "cli_calls c2 = cli_calls c1 @ ds" "set ds \<subseteq> {metadata_clear, metadata_apply}"
      "retried_whole cl (length (cli_calls c1)) metadata_clear metadata_apply ds"
      by blast
    from assms m d Inr have "cli_calls c' = cli_calls c2"
      by (cases r2) (auto simp add: applySchemaAndMetadata_def)
    with ms ds Inr show ?thesis
      by (intro exI [of _ ms] exI [of _ ds]) simp
  qed
qed

text \<open>
  The witness: on a fresh client the second command (\<^verbatim>\<open>migrate apply --up all\<close>) fails
  once. Both migration commands are run again before the metadata commands.
\<close>

theorem units_in_sequence_witness:
  "(\<exists>ms ds. cli_calls (snd (applySchemaAndMetadata (failing_once 1) alone new_client))
         = cli_calls new_client @ ms @ ds
      \<and> ms \<noteq> [] \<and> set ms \<subseteq> {migrate_down, migrate_up}
      \<and> set ds \<subseteq> {metadata_clear, metadata_apply}
      \<and> retried_whole (failing_once 1) (length (cli_calls new_client)) migrate_down migrate_up ms
      \<and> retried_whole (failing_once 1) (length (cli_calls new_client) + length ms)
           metadata_clear metadata_apply ds
      \<and> (ds = [] \<or> settled (failing_once 1) (length (cli_calls new_client)) migrate_up ms))
   \<and> fst (applySchemaAndMetadata (failing_once 1) alone new_client) = Inr ()
   \<and> cli_calls (snd (applySchemaAndMetadata (failing_once 1) alone new_client))
       = [migrate_down, migrate_up, migrate_down, migrate_up, metadata_clear, metadata_apply]"
proof -
  have idle: "\<not> applyingSchemaAndMetadata new_client"
    by (simp add: new_client_def)
  have run: "fst (applySchemaAndMetadata (failing_once 1) alone new_client) = Inr ()"
    "cli_calls (snd (applySchemaAndMetadata (failing_once 1) alone new_client))
       = [migrate_down, migrate_up, migrate_down, migrate_up, metadata_clear, metadata_apply]"
    by (simp_all add: run_defs failing_once_def)
  show ?thesis
    using units_in_sequence [OF idle, of "failing_once 1"
        "fst (applySchemaAndMetadata (failing_once 1) alone new_client)"
        "snd (applySchemaAndMetadata (failing_once 1) alone new_client)"] run
    by simp
qed

subsection \<open>The number of attempts and the error raised\<close>

lemma pRetry_from_traced:
  assumes fails: "\<And>s. isl (fst (input s))"
  shows "\<exists>e tr' s'.
     pRetry_from k n (traced input) (\<lambda>k e (tr, s). (tr, cb k e s)) (tr, s) = (Inl e, tr @ tr', s')
     \<and> pRetry_from k n input cb s = (Inl e, s')
     \<and> length tr' = Suc n \<and> last tr' = Inl e"
proof (induction n arbitrary: k tr s)
  case 0
  obtain r s1 where i: "input s = (r, s1)" by (cases "input s")
  with fails [of s] obtain e where "r = Inl e" by (cases r) auto
  with i show ?case by (simp add: traced_def)
next
  case (Suc n)
  obtain r s1 where i: "input s = (r, s1)" by (cases "input s")
  with fails [of s] obtain e where r: "r = Inl e" by (cases r) auto
  from Suc.IH [of "Suc k" "tr @ [Inl e]" "cb k e s1"] obtain e' tr' s' where
    "pRetry_from (Suc k) n (traced input) (\<lambda>k e (tr, s). (tr, cb k e s)) (tr @ [Inl e], cb k e s1)
       = (Inl e', (tr @ [Inl e]) @ tr', s')"
    "pRetry_from (Suc k) n input cb (cb k e s1) = (Inl e', s')"
    "length tr' = Suc n" "last tr' = Inl e'"
    by blast
  then show ?case
    using i r
    apply (intro exI [of _ e'] exI [of _ "Inl e # tr'"] exI [of _ s'])
    apply (auto simp: traced_def)
    done
qed

text \<open>
  Claim C9. An operation that fails on every attempt is invoked exactly \<open>retries + 1\<close>
  times by the retrier, that is 10 times under the policy of the source (retries 9),
  and the error raised in the end is the error of the last invocation, as it is. The
  invocations are counted by the record that \<open>traced\<close> keeps; the run without the record
  raises the same error and ends in the same state.
\<close>

theorem retry_count:
  assumes "\<And>s. isl (fst (input s))"
  shows "\<exists>e tr s'.
     pRetry (traced input) (traced_options options) ([], s) = (Inl e, tr, s')
     \<and> pRetry input options s = (Inl e, s')
     \<and> length tr = retries options + 1 \<and> last tr = Inl e"
  using pRetry_from_traced [of input 1 "retries options" "onFailedAttempt options" "[]" s, OF assms]
  by (simp add: pRetry_def traced_options_def)

lemma migrations_failing: "isl (fst (migrations (failing_cli m) alone c))"
  by (simp add: migrations_def unit_of_alone failing_cli_def failed_def)

text \<open>
  The witness: the migration unit under the policy of the source, on a command line
  that fails every command. Ten invocations, and the error of the tenth is raised.
\<close>

theorem retry_count_witness:
  "\<exists>e tr s'.
     pRetry (traced (migrations (failing_cli ''exit 1'') alone))
        (traced_options (retry_policy ''Applying PostgreSQL schema migrations'')) ([], new_client)
       = (Inl e, tr, s')
     \<and> pRetry (migrations (failing_cli ''exit 1'') alone)
          (retry_policy ''Applying PostgreSQL schema migrations'') new_client = (Inl e, s')
     \<and> length tr = 10 \<and> last tr = Inl e"
  using retry_count [of "migrations (failing_cli ''exit 1'') alone"
      "retry_policy ''Applying PostgreSQL schema migrations''" new_client]
  by (simp add: migrations_failing retry_policy_def)

subsection \<open>The flag after a failure\<close>

lemma failure_keeps_flag:
  assumes "\<not> applyingSchemaAndMetadata c"
    and "applySchemaAndMetadata cl alone c = (Inl e, c')"
  shows "applyingSchemaAndMetadata c'"
proof -
  let ?c0 = "c\<lparr>applyingSchemaAndMetadata := True\<rparr>"
  obtain r1 c1 where m: "pRetry (migrations cl alone)
      (retry_policy ''Applying PostgreSQL schema migrations'') ?c0 = (r1, c1)"
    by (cases "pRetry (migrations cl alone)
      (retry_policy ''Applying PostgreSQL schema migrations'') ?c0")
  from pRetry_unit_trace [OF m [unfolded migrations_def]]
  have f1: "applyingSchemaAndMetadata c1" by auto
  show ?thesis
  proof (cases r1)
    case (Inl e1)
    with assms m f1 show ?thesis by (simp add: applySchemaAndMetadata_def)
  next
    case (Inr u)
    obtain r2 c2 where d: "pRetry (metadata cl alone)
        (retry_policy ''Applying Hasura metadata'') c1 = (r2, c2)"
      by (cases "pRetry (metadata cl alone) (retry_policy ''Applying Hasura metadata'') c1")
    from pRetry_unit_trace [OF d [unfolded metadata_def]] f1
    have f2: "applyingSchemaAndMetadata c2" by auto
    from assms m d Inr f2 show ?thesis
      by (cases r2) (auto simp add: applySchemaAndMetadata_def)
  qed
qed

text \<open>
  Claim C1 fails on the code. When every command fails, the migration unit uses up its
  ten attempts, the call raises the error, and the flag is still set when the call has
  ended: the assignment that clears it is only reached when both units succeed. A later
  call, on any command line, is skipped: it starts no command and returns without
  error. The lemma \<open>failure_keeps_flag\<close> above says the same of every failed run.
\<close>

theorem flag_stuck_after_failure:
  "fst (applySchemaAndMetadata (failing_cli ''exit 1'') alone new_client) = Inl (Error ''exit 1'') \<and>
   applyingSchemaAndMetadata (snd (applySchemaAndMetadata (failing_cli ''exit 1'') alone new_client)) \<and>
   cli_calls (snd (applySchemaAndMetadata (failing_cli ''exit 1'') alone new_client))
     = replicate 10 migrate_down \<and>
   applySchemaAndMetadata cl others (snd (applySchemaAndMetadata (failing_cli ''exit 1'') alone new_client))
     = (Inr (), snd (applySchemaAndMetadata (failing_cli ''exit 1'') alone new_client))"
proof -
  have run: "fst (applySchemaAndMetadata (failing_cli ''exit 1'') alone new_client) = Inl (Error ''exit 1'') \<and>
   applyingSchemaAndMetadata (snd (applySchemaAndMetadata (failing_cli ''exit 1'') alone new_client)) \<and>
   cli_calls (snd (applySchemaAndMetadata (failing_cli ''exit 1'') alone new_client))
     = replicate 10 migrate_down"
    by (simp add: run_defs failing_cli_def)
  then show ?thesis
    using skipped_when_applying by blast
qed

section \<open>Properties of the quantities\<close>

subsection \<open>Digits\<close>

lemma digit_char_eval:
  "digit_char 0 = CHR ''0''" "digit_char 1 = CHR ''1''" "digit_char 2 = CHR ''2''"
  "digit_char 3 = CHR ''3''" "digit_char 4 = CHR ''4''" "digit_char 5 = CHR ''5''"
  "digit_char 6 = CHR ''6''" "digit_char 7 = CHR ''7''" "digit_char 8 = CHR ''8''"
  "digit_char 9 = CHR ''9''" "digit_char (Suc 0) = CHR ''1''"
proof -
  have c: "digit_char (of_char ch - 48) = ch" if "48 \<le> (of_char ch :: nat)" for ch
    using that by (simp add: digit_char_def)
  show "digit_char 0 = CHR ''0''" using c [of "CHR ''0''"] by simp
  show "digit_char 1 = CHR ''1''" using c [of "CHR ''1''"] by simp
  show "digit_char 2 = CHR ''2''" using c [of "CHR ''2''"] by simp
  show "digit_char 3 = CHR ''3''" using c [of "CHR ''3''"] by simp
  show "digit_char 4 = CHR ''4''" using c [of "CHR ''4''"] by simp
  show "digit_char 5 = CHR ''5''" using c [of "CHR ''5''"] by simp
  show "digit_char 6 = CHR ''6''" using c [of "CHR ''6''"] by simp
  show "digit_char 7 = CHR ''7''" using c [of "CHR ''7''"] by simp
  show "digit_char 8 = CHR ''8''" using c [of "CHR ''8''"] by simp
  show "digit_char 9 = CHR ''9''" using c [of "CHR ''9''"] by simp
  show "digit_char (Suc 0) = CHR ''1''" using c [of "CHR ''1''"] by simp
qed

lemma digit_char_digit: "d < 10 \<Longrightarrow> is_digit (digit_char d)"
  by (simp add: is_digit_def digit_char_def)

lemma digit_val_char: "d < 10 \<Longrightarrow> digit_val (digit_char d) = d"
  by (simp add: digit_val_def digit_char_def)

lemma is_digit_not_sep:
  assumes "is_digit ch"
  shows "ch \<noteq> CHR ''e''" "ch \<noteq> CHR ''E''" "ch \<noteq> CHR ''.''" "ch \<noteq> CHR ''-''" "ch \<noteq> CHR ''+''"
  using assms by (auto simp: is_digit_def)

lemma nat_of_digits_snoc: "nat_of_digits (s @ [ch]) = 10 * nat_of_digits s + digit_val ch"
  by (simp add: nat_of_digits_def)

lemma nat_of_digits_append:
  "nat_of_digits (s @ t) = nat_of_digits s * 10 ^ length t + nat_of_digits t"
proof (induction t rule: rev_induct)
  case Nil
  show ?case by (simp add: nat_of_digits_def)
next
  case (snoc ch t)
  have "nat_of_digits (s @ t @ [ch]) = 10 * nat_of_digits (s @ t) + digit_val ch"
    using nat_of_digits_snoc [of "s @ t" ch] by simp
  then show ?case
    by (simp add: snoc.IH nat_of_digits_snoc algebra_simps)
qed

lemma digits_of_nat_digits: "list_all is_digit (digits_of_nat n)"
proof (induction n rule: digits_of_nat.induct)
  case (1 n)
  show ?case
  proof (cases "n < 10")
    case True
    then show ?thesis by (simp add: digits_of_nat.simps [of n] digit_char_digit)
  next
    case False
    with 1 show ?thesis
      by (simp add: digits_of_nat.simps [of n] digit_char_digit)
  qed
qed

lemma digits_of_nat_nonempty: "digits_of_nat n \<noteq> []"
  by (simp add: digits_of_nat.simps [of n])

lemma decimal_digits_of_nat: "decimal (digits_of_nat n)"
  by (simp add: decimal_def digits_of_nat_digits digits_of_nat_nonempty)

lemma nat_of_digits_of_nat: "nat_of_digits (digits_of_nat n) = n"
proof (induction n rule: digits_of_nat.induct)
  case (1 n)
  show ?case
  proof (cases "n < 10")
    case True
    then show ?thesis
      by (simp add: digits_of_nat.simps [of n] nat_of_digits_def digit_val_char)
  next
    case False
    with 1 show ?thesis
      by (simp add: digits_of_nat.simps [of n] nat_of_digits_snoc digit_val_char)
  qed
qed

lemma length_digits_of_nat: "n < 10 ^ length (digits_of_nat n)"
proof (induction n rule: digits_of_nat.induct)
  case (1 n)
  show ?case
  proof (cases "n < 10")
    case True
    then show ?thesis by (simp add: digits_of_nat.simps [of n])
  next
    case False
    with 1 have "n div 10 < 10 ^ length (digits_of_nat (n div 10))" by simp
    then have "n < 10 * 10 ^ length (digits_of_nat (n div 10))" by linarith
    with False show ?thesis by (simp add: digits_of_nat.simps [of n])
  qed
qed

lemma digits_of_nat_lower: "0 < n \<Longrightarrow> 10 ^ (length (digits_of_nat n) - 1) \<le> n"
proof (induction n rule: digits_of_nat.induct)
  case (1 n)
  show ?case
  proof (cases "n < 10")
    case True
    with 1 show ?thesis by (simp add: digits_of_nat.simps [of n])
  next
    case False
    then have pos: "0 < n div 10" by simp
    from 1(1) [OF False pos] have "10 ^ (length (digits_of_nat (n div 10)) - 1) \<le> n div 10" .
    then have "10 * 10 ^ (length (digits_of_nat (n div 10)) - 1) \<le> n" by linarith
    moreover have "length (digits_of_nat (n div 10)) \<noteq> 0"
      using digits_of_nat_nonempty by simp
    ultimately show ?thesis using False
      by (simp add: digits_of_nat.simps [of n] power_eq_if)
  qed
qed

subsection \<open>Reading what toString writes\<close>

lemma cut_none: "(\<And>ch. ch \<in> set s \<Longrightarrow> \<not> sep ch) \<Longrightarrow> cut sep s = (s, None)"
  by (simp add: cut_def takeWhile_eq_all_conv [THEN iffD2] dropWhile_eq_Nil_conv [THEN iffD2])

lemma cut_some:
  "(\<And>ch. ch \<in> set s \<Longrightarrow> \<not> sep ch) \<Longrightarrow> sep c \<Longrightarrow> cut sep (s @ c # t) = (s, Some t)"
  by (simp add: cut_def takeWhile_append2 dropWhile_append2)

lemma decimal_set: "decimal s \<Longrightarrow> ch \<in> set s \<Longrightarrow> is_digit ch"
  by (simp add: decimal_def list_all_iff)

lemma parse_unsigned_decimal:
  assumes "decimal s"
  shows "parse_unsigned s = BN (int (nat_of_digits s))"
proof -
  have e: "cut (\<lambda>ch. ch = CHR ''e'' \<or> ch = CHR ''E'') s = (s, None)"
    using decimal_set [OF assms] is_digit_not_sep by (intro cut_none) auto
  have p: "cut (\<lambda>ch. ch = CHR ''.'') s = (s, None)"
    using decimal_set [OF assms] is_digit_not_sep by (intro cut_none) auto
  show ?thesis
    using assms by (simp add: parse_unsigned_def e p parse_mantissa_def parse_exponent_def scale_def)
qed

lemma BigNumber_of_decimal:
  assumes "decimal s"
  shows "BigNumber_of s = BN (int (nat_of_digits s))"
proof -
  obtain ch rest where s: "s = ch # rest"
    using assms by (cases s) (auto simp: decimal_def)
  with assms have "is_digit ch" by (simp add: decimal_def)
  then have "ch \<noteq> CHR ''-''" by (rule is_digit_not_sep)
  then show ?thesis
    using parse_unsigned_decimal [OF assms] by (simp add: BigNumber_of_def s)
qed

lemma takeWhile_eq_replicate:
  "takeWhile (\<lambda>x. x = c) xs = replicate (length (takeWhile (\<lambda>x. x = c) xs)) c"
  by (induction xs) auto

lemma strip_zeros_length: "length (strip_zeros ds) \<le> length ds"
  using length_dropWhile_le [of "\<lambda>ch. ch = CHR ''0''" "rev ds"] by (simp add: strip_zeros_def)

lemma strip_zeros_split:
  "strip_zeros ds @ replicate (length ds - length (strip_zeros ds)) (CHR ''0'') = ds"
proof -
  let ?P = "\<lambda>ch. ch = CHR ''0''"
  let ?k = "length (takeWhile ?P (rev ds))"
  have "strip_zeros ds @ rev (takeWhile ?P (rev ds))
      = rev (takeWhile ?P (rev ds) @ dropWhile ?P (rev ds))"
    by (simp only: strip_zeros_def rev_append)
  also have "\<dots> = ds"
    by (simp only: takeWhile_dropWhile_id rev_rev_ident)
  finally have split: "strip_zeros ds @ rev (takeWhile ?P (rev ds)) = ds" .
  have "rev (takeWhile ?P (rev ds)) = replicate ?k (CHR ''0'')"
    using takeWhile_eq_replicate [of "CHR ''0''" "rev ds"] by (metis rev_replicate)
  with split have rep: "strip_zeros ds @ replicate ?k (CHR ''0'') = ds" by simp
  then have "length (strip_zeros ds) + ?k = length ds"
    by (metis length_append length_replicate)
  then have "?k = length ds - length (strip_zeros ds)" by simp
  with rep show ?thesis by simp
qed

lemma nat_of_zeros: "nat_of_digits (replicate k (CHR ''0'')) = 0"
proof (induction k)
  case 0
  show ?case by (simp add: nat_of_digits_def)
next
  case (Suc k)
  have "replicate (Suc k) (CHR ''0'') = replicate k (CHR ''0'') @ [CHR ''0'']"
    by (simp add: replicate_append_same)
  then show ?case
    by (simp only: nat_of_digits_snoc Suc.IH) (simp add: digit_val_def)
qed

lemma strip_zeros_digits: "list_all is_digit ds \<Longrightarrow> list_all is_digit (strip_zeros ds)"
  by (auto simp: strip_zeros_def list_all_iff dest: set_dropWhileD)

lemma strip_zeros_value:
  "nat_of_digits (strip_zeros ds) * 10 ^ (length ds - length (strip_zeros ds)) = nat_of_digits ds"
proof -
  let ?k = "length ds - length (strip_zeros ds)"
  have "nat_of_digits (strip_zeros ds @ replicate ?k (CHR ''0''))
      = nat_of_digits (strip_zeros ds) * 10 ^ ?k"
    by (simp add: nat_of_digits_append nat_of_zeros)
  then show ?thesis by (simp only: strip_zeros_split)
qed

lemma digit_not_e: "is_digit ch \<Longrightarrow> ch \<noteq> CHR ''e'' \<and> ch \<noteq> CHR ''E''"
  by (auto simp: is_digit_def)

lemma digit_not_point: "is_digit ch \<Longrightarrow> ch \<noteq> CHR ''.''"
  by (auto simp: is_digit_def)

lemma parse_unsigned_exponential:
  assumes digits: "list_all is_digit ds" and pos: "0 < nat_of_digits ds"
  shows "parse_unsigned (toExponential ds) = BN (int (nat_of_digits ds))"
proof -
  let ?E = "length ds - 1"
  obtain d rest where cs: "strip_zeros ds = d # rest"
    using strip_zeros_value [of ds] pos by (cases "strip_zeros ds") (auto simp: nat_of_digits_def)
  have dg: "is_digit d" "list_all is_digit rest"
    using strip_zeros_digits [OF digits] cs by simp_all
  let ?M = "d # (if rest = [] then [] else CHR ''.'' # rest)"
  have str: "toExponential ds = ?M @ CHR ''e'' # CHR ''+'' # digits_of_nat ?E"
    by (simp add: toExponential_def cs)
  have noe: "\<not> (ch = CHR ''e'' \<or> ch = CHR ''E'')" if "ch \<in> set ?M" for ch
  proof -
    from that consider "ch = d" | "ch = CHR ''.''" | "ch \<in> set rest"
      by (auto split: if_splits)
    then show ?thesis
    proof cases
      case 1
      with dg(1) digit_not_e show ?thesis by blast
    next
      case 2
      then show ?thesis by simp
    next
      case 3
      with dg(2) have "is_digit ch" by (simp add: list_all_iff)
      with digit_not_e show ?thesis by blast
    qed
  qed
  have e: "cut (\<lambda>ch. ch = CHR ''e'' \<or> ch = CHR ''E'') (toExponential ds)
       = (?M, Some (CHR ''+'' # digits_of_nat ?E))"
    unfolding str using noe by (intro cut_some) simp_all
  have x: "parse_exponent (Some (CHR ''+'' # digits_of_nat ?E)) = Some (int ?E)"
    by (simp add: parse_exponent_def decimal_digits_of_nat nat_of_digits_of_nat)
  have m: "parse_mantissa ?M = Some ([d], rest)"
  proof (cases "rest = []")
    case True
    have "cut (\<lambda>ch. ch = CHR ''.'') [d] = ([d], None)"
      using dg(1) digit_not_point by (intro cut_none) simp
    with True dg show ?thesis by (simp add: parse_mantissa_def decimal_def)
  next
    case False
    have "cut (\<lambda>ch. ch = CHR ''.'') ([d] @ CHR ''.'' # rest) = ([d], Some rest)"
      using dg(1) digit_not_point by (intro cut_some) simp_all
    with False dg show ?thesis by (simp add: parse_mantissa_def decimal_def)
  qed
  have "int ?E - int (length rest) = int (length ds - length (strip_zeros ds))"
    using strip_zeros_length [of ds] cs by auto
  then have "scale (nat_of_digits ([d] @ rest)) (int ?E - int (length rest))
      = BN (int (nat_of_digits ds))"
    using strip_zeros_value [of ds] by (simp add: scale_def cs)
  then show ?thesis
    using x by (simp add: parse_unsigned_def e m)
qed

lemma parse_unsigned_toString: "parse_unsigned (digits_toString n) = BN (int n)"
proof (cases "21 \<le> length (digits_of_nat n) - 1")
  case True
  have "0 < n"
  proof (rule ccontr)
    assume "\<not> 0 < n"
    then have "digits_of_nat n = [digit_char 0]" by (simp add: digits_of_nat.simps [of 0])
    with True show False by simp
  qed
  then have "0 < nat_of_digits (digits_of_nat n)" by (simp add: nat_of_digits_of_nat)
  from parse_unsigned_exponential [OF digits_of_nat_digits this] True show ?thesis
    by (simp add: digits_toString_def nat_of_digits_of_nat Let_def)
next
  case False
  then show ?thesis
    using parse_unsigned_decimal [OF decimal_digits_of_nat, of n]
    by (simp add: digits_toString_def nat_of_digits_of_nat Let_def)
qed

lemma digits_toString_head: "\<exists>d rest. digits_toString n = d # rest \<and> is_digit d"
proof (cases "21 \<le> length (digits_of_nat n) - 1")
  case True
  have "0 < n"
  proof (rule ccontr)
    assume "\<not> 0 < n"
    then have "digits_of_nat n = [digit_char 0]" by (simp add: digits_of_nat.simps [of 0])
    with True show False by simp
  qed
  then have pos: "0 < nat_of_digits (digits_of_nat n)" by (simp add: nat_of_digits_of_nat)
  obtain d rest where cs: "strip_zeros (digits_of_nat n) = d # rest"
    using strip_zeros_value [of "digits_of_nat n"] pos
    by (cases "strip_zeros (digits_of_nat n)") (auto simp: nat_of_digits_def)
  have "is_digit d"
    using strip_zeros_digits [OF digits_of_nat_digits, of n] cs by simp
  with True cs show ?thesis
    by (simp add: digits_toString_def toExponential_def Let_def)
next
  case False
  obtain d rest where "digits_of_nat n = d # rest"
    using digits_of_nat_nonempty [of n] by (cases "digits_of_nat n") auto
  with False digits_of_nat_digits [of n] show ?thesis
    by (simp add: digits_toString_def Let_def)
qed

lemma BigNumber_of_toString: "BigNumber_of (toString x) = x"
proof (cases x)
  case NaN
  have e: "cut (\<lambda>ch. ch = CHR ''e'' \<or> ch = CHR ''E'') ''NaN'' = (''NaN'', None)"
    by (intro cut_none) auto
  have p: "cut (\<lambda>ch. ch = CHR ''.'') ''NaN'' = (''NaN'', None)"
    by (intro cut_none) auto
  show ?thesis
    by (simp add: NaN toString_def BigNumber_of_def parse_unsigned_def e p parse_mantissa_def
        decimal_def is_digit_def)
next
  case (BN i)
  obtain d rest where h: "digits_toString (nat \<bar>i\<bar>) = d # rest" "is_digit d"
    using digits_toString_head by blast
  then have nm: "d \<noteq> CHR ''-''" using is_digit_not_sep by blast
  show ?thesis
  proof (cases "i < 0")
    case True
    then show ?thesis
      by (simp add: BN toString_def BigNumber_of_def parse_unsigned_toString negated_def)
  next
    case False
    with h nm parse_unsigned_toString [of "nat \<bar>i\<bar>"] show ?thesis
      by (simp add: BN toString_def BigNumber_of_def)
  qed
qed

lemma BigNumber_of_add: "BigNumber_of (add_quantities a b) = plus_bn (BigNumber_of a) (BigNumber_of b)"
  by (simp add: add_quantities_def BigNumber_of_toString)

subsection \<open>Sums of quantities\<close>

lemma digits_toString_small: "n < 10 ^ 21 \<Longrightarrow> digits_toString n = digits_of_nat n"
proof (cases "n = 0")
  case True
  then show ?thesis
    by (simp add: digits_toString_def digits_of_nat.simps [of 0])
next
  case False
  assume "n < 10 ^ 21"
  moreover from False have "10 ^ (length (digits_of_nat n) - 1) \<le> n"
    using digits_of_nat_lower [of n] by simp
  ultimately have "(10::nat) ^ (length (digits_of_nat n) - 1) < 10 ^ 21"
    by (rule le_less_trans [rotated])
  then have "length (digits_of_nat n) - 1 < 21"
    by (rule power_less_imp_less_exp [rotated]) simp
  then show ?thesis by (simp add: digits_toString_def Let_def)
qed

lemma add_quantities_decimal:
  assumes "decimal a" and "decimal b"
  shows "add_quantities a b = digits_toString (nat_of_digits a + nat_of_digits b)"
  using assms
  by (simp add: add_quantities_def BigNumber_of_decimal plus_bn_def toString_def nat_int_add)

lemma digits_toString_large:
  assumes "10 ^ 21 \<le> n"
  shows "digits_toString n = toExponential (digits_of_nat n)"
proof -
  have "(10::nat) ^ 21 < 10 ^ length (digits_of_nat n)"
    using assms length_digits_of_nat [of n] by (rule le_less_trans)
  then have "21 < length (digits_of_nat n)"
    by (rule power_less_imp_less_exp [rotated]) simp
  then have "21 \<le> length (digits_of_nat n) - 1" by simp
  then show ?thesis by (simp add: digits_toString_def Let_def)
qed

lemma toExponential_not_decimal: "\<not> decimal (toExponential ds)"
proof (cases "strip_zeros ds")
  case Nil
  then show ?thesis by (simp add: toExponential_def decimal_def)
next
  case (Cons d rest)
  have "CHR ''e'' \<in> set (toExponential ds)"
    by (simp add: toExponential_def Cons)
  moreover have "\<not> is_digit (CHR ''e'')"
    by (simp add: is_digit_def)
  ultimately show ?thesis
    by (auto simp: decimal_def list_all_iff)
qed

section \<open>Properties of buildHasuraSchema\<close>

lemma getType_wrapSchema: "getType (wrapSchema schema) t = getType schema t"
  by (simp add: getType_def wrapSchema_def)

lemma check_types_complete:
  "(\<And>t. t \<in> set ts \<Longrightarrow> getType schema t \<noteq> None) \<Longrightarrow> check_types ts schema = Inr schema"
  by (induction ts) (auto split: option.splits)

lemma check_types_missing:
  "t \<in> set ts \<Longrightarrow> getType schema t = None \<Longrightarrow>
   \<exists>t' \<in> set ts. getType schema t' = None
      \<and> check_types ts schema = Inl (Error (''Remote schema is missing '' @ t'))"
proof (induction ts)
  case Nil
  then show ?case by simp
next
  case (Cons a ts)
  show ?case
  proof (cases "getType schema a")
    case None
    then show ?thesis by auto
  next
    case (Some g)
    with Cons.prems have "t \<in> set ts" by auto
    from Cons.IH [OF this Cons.prems(2)] Some show ?thesis by auto
  qed
qed

lemma set_coreTypes: "set coreTypes = {''Block'', ''Cardano'', ''Epoch'', ''Transaction''}"
  by (auto simp: coreTypes_def)

text \<open>
  Claim C6. When the introspected schema lacks one of the types Block, Cardano, Epoch
  and Transaction, buildHasuraSchema fails with the error
  \<^verbatim>\<open>Remote schema is missing T\<close> for a type \<open>T\<close> of the four that the schema lacks
  (the first in the order of the source); when it has all four, buildHasuraSchema
  returns the wrapped schema. The client is as before in both cases.
\<close>

theorem schema_validation:
  "((\<exists>t \<in> {''Block'', ''Cardano'', ''Epoch'', ''Transaction''}. getType schema t = None) \<longrightarrow>
      (\<exists>t \<in> {''Block'', ''Cardano'', ''Epoch'', ''Transaction''}.
          getType schema t = None \<and>
          buildHasuraSchema (Introspected schema) c
            = (Inl (Error (''Remote schema is missing '' @ t)), c))) \<and>
   ((\<forall>t \<in> {''Block'', ''Cardano'', ''Epoch'', ''Transaction''}. getType schema t \<noteq> None) \<longrightarrow>
      buildHasuraSchema (Introspected schema) c = (Inr (wrapSchema schema), c))"
proof (intro conjI impI)
  assume "\<exists>t \<in> {''Block'', ''Cardano'', ''Epoch'', ''Transaction''}. getType schema t = None"
  then obtain t where t: "t \<in> set coreTypes" "getType (wrapSchema schema) t = None"
    unfolding set_coreTypes getType_wrapSchema by blast
  from check_types_missing [OF this] obtain t' where
    "t' \<in> set coreTypes" "getType (wrapSchema schema) t' = None"
    "check_types coreTypes (wrapSchema schema) = Inl (Error (''Remote schema is missing '' @ t'))"
    by blast
  then show "\<exists>t \<in> {''Block'', ''Cardano'', ''Epoch'', ''Transaction''}.
          getType schema t = None \<and>
          buildHasuraSchema (Introspected schema) c
            = (Inl (Error (''Remote schema is missing '' @ t)), c)"
    unfolding set_coreTypes getType_wrapSchema
    by (intro bexI [of _ t']) (simp_all add: buildHasuraSchema_def)
next
  assume "\<forall>t \<in> {''Block'', ''Cardano'', ''Epoch'', ''Transaction''}. getType schema t \<noteq> None"
  then have "\<And>t. t \<in> set coreTypes \<Longrightarrow> getType (wrapSchema schema) t \<noteq> None"
    unfolding set_coreTypes getType_wrapSchema by blast
  then have "check_types coreTypes (wrapSchema schema) = Inr (wrapSchema schema)"
    by (rule check_types_complete)
  then show "buildHasuraSchema (Introspected schema) c = (Inr (wrapSchema schema), c)"
    by (simp add: buildHasuraSchema_def)
qed

text \<open>
  The witness: a remote schema with the four types and one more, and the same schema
  without Epoch. The second is refused with the name of the missing type.
\<close>

theorem schema_validation_witness:
  "buildHasuraSchema
      (Introspected \<lparr>typeMap = [(''Block'', ()), (''Cardano'', ()), (''Epoch'', ()),
                                 (''Transaction'', ()), (''Asset'', ())], executable = False\<rparr>)
      new_client
     = (Inr \<lparr>typeMap = [(''Block'', ()), (''Cardano'', ()), (''Epoch'', ()),
                         (''Transaction'', ()), (''Asset'', ())], executable = True\<rparr>, new_client) \<and>
   buildHasuraSchema
      (Introspected \<lparr>typeMap = [(''Block'', ()), (''Cardano'', ()),
                                 (''Transaction'', ()), (''Asset'', ())], executable = False\<rparr>)
      new_client
     = (Inl (Error ''Remote schema is missing Epoch''), new_client)"
proof -
  let ?full = "\<lparr>typeMap = [(''Block'', ()), (''Cardano'', ()), (''Epoch'', ()),
                            (''Transaction'', ()), (''Asset'', ())], executable = False\<rparr>"
  let ?part = "\<lparr>typeMap = [(''Block'', ()), (''Cardano'', ()),
                            (''Transaction'', ()), (''Asset'', ())], executable = False\<rparr>"
  have 1: "buildHasuraSchema (Introspected ?full) new_client = (Inr (wrapSchema ?full), new_client)"
    using schema_validation [of ?full new_client] by (simp add: getType_def)
  have "\<exists>t \<in> {''Block'', ''Cardano'', ''Epoch'', ''Transaction''}.
          getType ?part t = None \<and>
          buildHasuraSchema (Introspected ?part) new_client
            = (Inl (Error (''Remote schema is missing '' @ t)), new_client)"
    using schema_validation [of ?part new_client] by (simp add: getType_def)
  then have 2: "buildHasuraSchema (Introspected ?part) new_client
            = (Inl (Error ''Remote schema is missing Epoch''), new_client)"
    by (auto simp: getType_def)
  from 1 2 show ?thesis by (simp add: wrapSchema_def)
qed

section \<open>Properties of the producer of the circulating supply\<close>

lemma producer_returns_promise:
  "\<exists>p. producer query_result c = (Returned (Some p), c)"
  by (simp add: producer_def getAdaCirculatingSupply_def async_def)

text \<open>
  Claim C2 fails on the code. \<^verbatim>\<open>getAdaCirculatingSupply\<close> is an \<^verbatim>\<open>async\<close> method and the
  producer returns its promise without awaiting it, so the \<^verbatim>\<open>catch\<close> block is never
  entered (lemma \<open>producer_returns_promise\<close>). When the query fails with the message of
  the chain-sync condition, the producer returns the rejected promise: nothing is
  logged, and the fetcher that awaits the producer receives the error.
\<close>

theorem not_ready_error_reaches_fetcher:
  "producer (Inl (Error not_near_tip)) c = (Returned (Some (Rejected (Error not_near_tip))), c) \<and>
   awaited (fst (producer (Inl (Error not_near_tip)) c)) = Inl (Error not_near_tip) \<and>
   logger (snd (producer (Inl (Error not_near_tip)) c)) = logger c"
  by (simp add: producer_def getAdaCirculatingSupply_def async_def)

section \<open>Properties of getPaymentAddressSummary\<close>

text \<open>
  Claim C10. When the query delivers no transaction output, the summary has no asset
  balance, not even one for ada, and its count of outputs is the count that the
  query delivers beside the rows, whatever that count is.
\<close>

theorem empty_summary:
  "getPaymentAddressSummary (Inr \<lparr>utxos = [], utxos_aggregate_count = n\<rparr>)
     = Inr \<lparr>assetBalances = [], utxosCount = n\<rparr>"
  by (simp add: getPaymentAddressSummary_def aggregate_def map_values_def)

subsection \<open>The map after the loop\<close>

lemma map_of_map_set: "map_of (map_set k v m) = (map_of m)(k \<mapsto> v)"
  by (induction m) (auto simp: fun_eq_iff)

lemma keys_map_set:
  "map fst (map_set k v m) = (if k \<in> fst ` set m then map fst m else map fst m @ [k])"
  by (induction m) auto

lemma map_of_add_entry:
  "map_of (add_entry m e) k =
     (if k = fst e
      then Some (case map_of m (fst e) of
                   Some current \<Rightarrow>
                     current\<lparr>quantity := add_quantities (quantity current) (quantity (snd e))\<rparr>
                 | None \<Rightarrow> snd e)
      else map_of m k)"
  by (simp add: add_entry_def map_get_def map_of_map_set split: option.splits)

lemma keys_add_entry:
  "map fst (add_entry m e) = (if fst e \<in> fst ` set m then map fst m else map fst m @ [fst e])"
  by (simp add: add_entry_def keys_map_set split: option.splits)

lemma add_value_entry: "add_value v m = add_entry m (''ada'', ada_balance v)"
  by (simp add: add_value_def add_entry_def ada_balance_def split: option.splits)

lemma add_token_entry: "add_token token m = add_entry m (assetId (asset token), token)"
  by (simp add: add_token_def add_entry_def split: option.splits)

lemma add_utxo_entries: "add_utxo m utxo = foldl add_entry m (entries_of utxo)"
  by (simp add: add_utxo_def entries_of_def add_value_entry add_token_entry foldl_map)

lemma aggregate_from: "foldl add_utxo m rows = foldl add_entry m (entries rows)"
  by (induction rows arbitrary: m) (simp_all add: entries_def add_utxo_entries)

lemma aggregate_entries: "aggregate rows = foldl add_entry [] (entries rows)"
  by (simp add: aggregate_def aggregate_from)

lemma keys_run_distinct:
  "distinct (map fst m) \<Longrightarrow> distinct (map fst (foldl add_entry m es))"
  by (induction es arbitrary: m) (simp_all add: keys_add_entry)

lemma keys_add_entry_set: "fst ` set (add_entry m e) = insert (fst e) (fst ` set m)"
proof -
  have "set (map fst (add_entry m e)) = insert (fst e) (fst ` set m)"
    unfolding keys_add_entry by auto
  then show ?thesis by simp
qed

lemma keys_run_set:
  "fst ` set (foldl add_entry m es) = fst ` set m \<union> fst ` set es"
  by (induction es arbitrary: m) (simp_all add: keys_add_entry_set)

lemma lookup_run:
  "map_of (foldl add_entry m es) k =
     (case map_of m k of
        Some current \<Rightarrow>
          Some (current\<lparr>quantity := foldl add_quantities (quantity current)
                  (map (\<lambda>e. quantity (snd e)) (filter (\<lambda>e. fst e = k) es))\<rparr>)
      | None \<Rightarrow> balance_at k es)"
proof (induction es arbitrary: m)
  case Nil
  show ?case by (simp add: balance_at_def split: option.splits)
next
  case (Cons e es)
  show ?case
    by (simp add: Cons.IH map_of_add_entry balance_at_def split: option.splits)
qed

lemma lookup_aggregate: "map_of (aggregate rows) k = balance_at k (entries rows)"
  by (simp add: aggregate_entries lookup_run)

lemma values_by_keys:
  "distinct (map fst al) \<Longrightarrow> map snd al = map (\<lambda>k. the (map_of al k)) (map fst al)"
proof (induction al)
  case Nil
  show ?case by simp
next
  case (Cons p al)
  have "the (map_of (p # al) k) = the (map_of al k)" if "k \<in> set (map fst al)" for k
  proof -
    from that Cons.prems have "k \<noteq> fst p" by (auto simp: image_iff)
    then show ?thesis by (cases p) simp
  qed
  then have "map (\<lambda>k. the (map_of (p # al) k)) (map fst al)
      = map (\<lambda>k. the (map_of al k)) (map fst al)"
    by (intro map_cong refl)
  with Cons show ?case by (cases p) simp
qed

subsection \<open>The value of a chain of additions\<close>

lemma plus_bn_assoc: "plus_bn (plus_bn a b) c = plus_bn a (plus_bn b c)"
  by (cases a; cases b; cases c) (simp_all add: plus_bn_def)

lemma plus_bn_commute: "plus_bn a b = plus_bn b a"
  by (cases a; cases b) (simp_all add: plus_bn_def)

lemma bn_total_Cons: "bn_total (q # qs) = plus_bn (BigNumber_of q) (bn_total qs)"
  by (cases "BigNumber_of q") (simp_all add: bn_total_def plus_bn_def)

lemma value_foldl:
  "BigNumber_of (foldl add_quantities q qs) = plus_bn (BigNumber_of q) (bn_total qs)"
proof (induction qs arbitrary: q)
  case Nil
  show ?case by (cases "BigNumber_of q") (simp_all add: bn_total_def plus_bn_def)
next
  case (Cons r qs)
  show ?case
    by (simp add: Cons.IH BigNumber_of_add plus_bn_assoc bn_total_Cons)
qed

lemma bn_total_decimal:
  "list_all decimal qs \<Longrightarrow> bn_total qs = BN (int (sum_list (map nat_of_digits qs)))"
  by (induction qs) (simp_all add: bn_total_Cons BigNumber_of_decimal plus_bn_def, simp add: bn_total_def)

lemma foldl_is_toString:
  "qs \<noteq> [] \<Longrightarrow> foldl add_quantities q qs = toString (BigNumber_of (foldl add_quantities q qs))"
proof (induction qs rule: rev_induct)
  case Nil
  then show ?case by simp
next
  case (snoc r qs)
  show ?case
    by (simp add: BigNumber_of_add) (simp add: add_quantities_def)
qed

subsection \<open>The balance of a key\<close>

lemma entries_Cons: "entries (utxo # rows) = entries_of utxo @ entries rows"
  by (simp add: entries_def)

lemma entry_key: "e \<in> set (entries rows) \<Longrightarrow> assetId (asset (snd e)) = fst e"
  by (auto simp: entries_def entries_of_def ada_balance_def ada_asset_def)

lemma entries_keys:
  "fst ` set (entries rows) =
     (if rows = [] then {} else {''ada''}) \<union> (\<lambda>token. assetId (asset token)) ` set (all_tokens rows)"
proof (induction rows)
  case Nil
  show ?case by (simp add: entries_def all_tokens_def)
next
  case (Cons utxo rows)
  have "fst ` set (entries_of utxo) = insert ''ada'' ((\<lambda>token. assetId (asset token)) ` set (tokens utxo))"
    by (auto simp: entries_of_def image_iff)
  then show ?case
    using Cons.IH by (auto simp: entries_Cons all_tokens_def image_Un)
qed

lemma entries_decimal:
  "well_formed rows \<Longrightarrow> e \<in> set (entries rows) \<Longrightarrow> decimal (quantity (snd e))"
  by (auto simp: well_formed_def entries_def entries_of_def ada_balance_def list_all_iff)

lemma entries_total:
  "sum_list (map (\<lambda>e. nat_of_digits (quantity (snd e))) (filter (\<lambda>e. fst e = k) (entries rows)))
     = (if k = ''ada'' then ada_total rows else 0) + token_total k rows"
proof (induction rows)
  case Nil
  show ?case by (simp add: entries_def ada_total_def token_total_def all_tokens_def)
next
  case (Cons utxo rows)
  have t: "map (\<lambda>e. nat_of_digits (quantity (snd e)))
          (filter (\<lambda>e. fst e = k') (map (\<lambda>token. (assetId (asset token), token)) ts))
       = map (\<lambda>token. nat_of_digits (quantity token))
          (filter (\<lambda>token. assetId (asset token) = k') ts)" for k' and ts :: "Token list"
    by (induction ts) simp_all
  show ?case
    using Cons.IH
    by (cases "k = ''ada''")
      (simp_all add: entries_Cons entries_of_def t ada_total_def token_total_def all_tokens_def
        ada_balance_def)
qed

lemma no_ada_total: "no_ada_token rows \<Longrightarrow> token_total ''ada'' rows = 0"
proof -
  assume "no_ada_token rows"
  then have "filter (\<lambda>token. assetId (asset token) = ''ada'') (all_tokens rows) = []"
    by (simp add: no_ada_token_def list_all_iff filter_empty_conv)
  then show ?thesis by (simp add: token_total_def)
qed

lemma balance_at_Some:
  assumes "balance_at k es = Some b"
  obtains e rest where "filter (\<lambda>e. fst e = k) es = e # rest"
    and "asset b = asset (snd e)"
    and "quantity b = foldl add_quantities (quantity (snd e)) (map (\<lambda>e. quantity (snd e)) rest)"
  using assms by (auto simp: balance_at_def split: list.splits)

lemma aggregate_distinct: "distinct (map fst (aggregate rows))"
  by (simp add: aggregate_entries keys_run_distinct)

lemma aggregate_keys: "fst ` set (aggregate rows) = fst ` set (entries rows)"
  by (simp add: aggregate_entries keys_run_set)

lemma aggregate_member:
  "(k, b) \<in> set (aggregate rows) \<Longrightarrow> balance_at k (entries rows) = Some b"
  using map_of_is_SomeI [OF aggregate_distinct, of k b rows] by (simp add: lookup_aggregate)

lemma member_key:
  assumes "(k, b) \<in> set (aggregate rows)"
  shows "assetId (asset b) = k"
proof -
  from aggregate_member [OF assms] obtain e rest where
    f: "filter (\<lambda>e. fst e = k) (entries rows) = e # rest" and a: "asset b = asset (snd e)"
    by (rule balance_at_Some)
  from f have "e \<in> set (filter (\<lambda>e. fst e = k) (entries rows))" by simp
  then have "e \<in> set (entries rows)" "fst e = k" by simp_all
  with a entry_key show ?thesis by metis
qed

lemma balance_ids: "map (\<lambda>b. assetId (asset b)) (map_values (aggregate rows)) = map fst (aggregate rows)"
  unfolding map_values_def map_map
  by (rule map_cong [OF refl]) (auto simp: member_key)

lemma member_value:
  assumes wf: "well_formed rows" and m: "(k, b) \<in> set (aggregate rows)"
  shows "BigNumber_of (quantity b) = BN (int ((if k = ''ada'' then ada_total rows else 0) + token_total k rows))"
proof -
  from aggregate_member [OF m] obtain e rest where
    f: "filter (\<lambda>e. fst e = k) (entries rows) = e # rest"
    and q: "quantity b = foldl add_quantities (quantity (snd e)) (map (\<lambda>e. quantity (snd e)) rest)"
    by (rule balance_at_Some)
  have "set (e # rest) \<subseteq> set (entries rows)"
    unfolding f [symmetric] by auto
  with entries_decimal [OF wf] have d: "decimal (quantity (snd e))"
    "list_all decimal (map (\<lambda>e. quantity (snd e)) rest)"
    by (auto simp: list_all_iff)
  have "BigNumber_of (quantity b)
      = BN (int (nat_of_digits (quantity (snd e))
          + sum_list (map nat_of_digits (map (\<lambda>e. quantity (snd e)) rest))))"
    unfolding q value_foldl using d
    by (simp add: bn_total_decimal BigNumber_of_decimal plus_bn_def)
  also have "nat_of_digits (quantity (snd e))
          + sum_list (map nat_of_digits (map (\<lambda>e. quantity (snd e)) rest))
      = sum_list (map (\<lambda>e. nat_of_digits (quantity (snd e))) (e # rest))"
    by (simp add: comp_def)
  also have "\<dots> = (if k = ''ada'' then ada_total rows else 0) + token_total k rows"
    unfolding f [symmetric] by (rule entries_total)
  finally show ?thesis .
qed

lemma member_decimal:
  assumes wf: "well_formed rows" and m: "(k, b) \<in> set (aggregate rows)"
    and small: "(if k = ''ada'' then ada_total rows else 0) + token_total k rows < 10 ^ 21"
  shows "decimal (quantity b)"
proof -
  from aggregate_member [OF m] obtain e rest where
    f: "filter (\<lambda>e. fst e = k) (entries rows) = e # rest"
    and q: "quantity b = foldl add_quantities (quantity (snd e)) (map (\<lambda>e. quantity (snd e)) rest)"
    by (rule balance_at_Some)
  show ?thesis
  proof (cases rest)
    case Nil
    have "e \<in> set (entries rows)"
      using f by (metis filter_is_subset list.set_intros(1) subsetD)
    with entries_decimal [OF wf] q Nil show ?thesis by simp
  next
    case (Cons r rest')
    then have "quantity b = toString (BigNumber_of (quantity b))"
      unfolding q by (intro foldl_is_toString) simp
    also have "\<dots> = digits_of_nat ((if k = ''ada'' then ada_total rows else 0) + token_total k rows)"
      unfolding member_value [OF wf m] using small
      by (simp add: toString_def digits_toString_small nat_int_add)
    finally show ?thesis by (simp add: decimal_digits_of_nat)
  qed
qed

subsection \<open>One balance for each asset\<close>

lemma example_sums:
  "add_quantities ''1000000'' ''2000000'' = ''3000000''"
  "add_quantities ''5'' ''7'' = ''12''"
proof -
  have d: "decimal ''1000000''" "decimal ''2000000''" "decimal ''5''" "decimal ''7''"
    by (simp_all add: decimal_def is_digit_def)
  show "add_quantities ''1000000'' ''2000000'' = ''3000000''"
    by (simp add: add_quantities_decimal d nat_of_digits_def digit_val_def digits_toString_small
        digits_of_nat.simps digit_char_eval)
  show "add_quantities ''5'' ''7'' = ''12''"
    by (simp add: add_quantities_decimal d nat_of_digits_def digit_val_def digits_toString_small
        digits_of_nat.simps digit_char_eval)
qed

lemma example_balances:
  "map_values (aggregate example_rows)
     = [ada_balance ''3000000'', token_of ''A'' ''12'', token_of ''B'' ''1'']"
  by (simp add: aggregate_def add_utxo_def add_value_def add_token_def map_get_def map_values_def
      example_rows_def token_of_def ada_balance_def example_sums)

lemma member_total:
  assumes "no_ada_token rows"
  shows "(if k = ''ada'' then ada_total rows else 0) + token_total k rows = total_of k rows"
  using no_ada_total [OF assms] by (simp add: total_of_def)

text \<open>
  Claim C3. For rows of decimal numerals in which no token has the asset id \<^verbatim>\<open>ada\<close>, the
  summary holds exactly one balance for each asset id: the ids of the balances are
  distinct, and they are \<^verbatim>\<open>ada\<close> (when there is a row) and the asset ids of the tokens.
  The quantity of each balance denotes exactly the sum of the quantities that
  contribute to its asset (\<open>total_of\<close>: the values of all rows for \<^verbatim>\<open>ada\<close>, the
  quantities of the tokens with that id otherwise), and is a decimal numeral of that
  value when the sum has at most 21 digits. The example of the specification gives
  three balances: ada 3000000, A 12, B 1.
\<close>

theorem one_balance_per_asset:
  assumes "well_formed rows" and "no_ada_token rows"
    and "getPaymentAddressSummary (Inr \<lparr>utxos = rows, utxos_aggregate_count = n\<rparr>) = Inr summary"
  shows "distinct (map (\<lambda>b. assetId (asset b)) (assetBalances summary)) \<and>
     set (map (\<lambda>b. assetId (asset b)) (assetBalances summary))
       = (if rows = [] then {} else {''ada''}) \<union> (\<lambda>token. assetId (asset token)) ` set (all_tokens rows) \<and>
     (\<forall>b \<in> set (assetBalances summary).
        BigNumber_of (quantity b) = BN (int (total_of (assetId (asset b)) rows)) \<and>
        (total_of (assetId (asset b)) rows < 10 ^ 21 \<longrightarrow>
           decimal (quantity b) \<and> nat_of_digits (quantity b) = total_of (assetId (asset b)) rows)) \<and>
     getPaymentAddressSummary (Inr \<lparr>utxos = example_rows, utxos_aggregate_count = 2\<rparr>)
       = Inr \<lparr>assetBalances = [ada_balance ''3000000'', token_of ''A'' ''12'', token_of ''B'' ''1''],
              utxosCount = 2\<rparr>"
proof -
  from assms(3) have s: "assetBalances summary = map_values (aggregate rows)"
    by (auto simp: getPaymentAddressSummary_def)
  have 1: "distinct (map (\<lambda>b. assetId (asset b)) (assetBalances summary))"
    unfolding s balance_ids by (rule aggregate_distinct)
  have 2: "set (map (\<lambda>b. assetId (asset b)) (assetBalances summary))
       = (if rows = [] then {} else {''ada''}) \<union> (\<lambda>token. assetId (asset token)) ` set (all_tokens rows)"
    unfolding s balance_ids using aggregate_keys [of rows] entries_keys [of rows] by simp
  have 3: "BigNumber_of (quantity b) = BN (int (total_of (assetId (asset b)) rows)) \<and>
        (total_of (assetId (asset b)) rows < 10 ^ 21 \<longrightarrow>
           decimal (quantity b) \<and> nat_of_digits (quantity b) = total_of (assetId (asset b)) rows)"
    if "b \<in> set (assetBalances summary)" for b
  proof -
    from that obtain k where m: "(k, b) \<in> set (aggregate rows)"
      unfolding s map_values_def by auto
    then have k: "assetId (asset b) = k" by (rule member_key)
    have v: "BigNumber_of (quantity b) = BN (int (total_of k rows))"
      using member_value [OF assms(1) m] member_total [OF assms(2), of k] by simp
    have "decimal (quantity b) \<and> nat_of_digits (quantity b) = total_of k rows"
      if small: "total_of k rows < 10 ^ 21"
    proof -
      have d: "decimal (quantity b)"
        using member_decimal [OF assms(1) m] member_total [OF assms(2), of k] small by simp
      with v show ?thesis by (simp add: BigNumber_of_decimal)
    qed
    with v k show ?thesis by simp
  qed
  have 4: "getPaymentAddressSummary (Inr \<lparr>utxos = example_rows, utxos_aggregate_count = 2\<rparr>)
       = Inr \<lparr>assetBalances = [ada_balance ''3000000'', token_of ''A'' ''12'', token_of ''B'' ''1''],
              utxosCount = 2\<rparr>"
    by (simp add: getPaymentAddressSummary_def example_balances)
  from 1 2 3 4 show ?thesis by blast
qed

lemma example_well_formed: "well_formed example_rows \<and> no_ada_token example_rows"
  by (simp add: well_formed_def no_ada_token_def all_tokens_def example_rows_def token_of_def
      decimal_def is_digit_def)

text \<open>
  The witness: the theorem at the rows of the example. The three asset ids are
  distinct, and the balance of A denotes 12, the sum of 5 and 7.
\<close>

theorem one_balance_per_asset_witness:
  "well_formed example_rows \<and> no_ada_token example_rows \<and>
   getPaymentAddressSummary (Inr \<lparr>utxos = example_rows, utxos_aggregate_count = 2\<rparr>)
     = Inr \<lparr>assetBalances = [ada_balance ''3000000'', token_of ''A'' ''12'', token_of ''B'' ''1''],
            utxosCount = 2\<rparr> \<and>
   distinct (map (\<lambda>b. assetId (asset b))
      [ada_balance ''3000000'', token_of ''A'' ''12'', token_of ''B'' ''1'']) \<and>
   BigNumber_of (quantity (token_of ''A'' ''12'')) = BN (int (total_of ''A'' example_rows)) \<and>
   total_of ''A'' example_rows = 12"
proof -
  let ?summary = "\<lparr>assetBalances = [ada_balance ''3000000'', token_of ''A'' ''12'', token_of ''B'' ''1''],
            utxosCount = 2\<rparr>"
  have s: "getPaymentAddressSummary (Inr \<lparr>utxos = example_rows, utxos_aggregate_count = 2\<rparr>)
     = Inr ?summary"
    by (simp add: getPaymentAddressSummary_def example_balances)
  have wf: "well_formed example_rows" and na: "no_ada_token example_rows"
    using example_well_formed by simp_all
  from one_balance_per_asset [OF wf na s]
  have d: "distinct (map (\<lambda>b. assetId (asset b)) (assetBalances ?summary))"
    and q: "\<forall>b \<in> set (assetBalances ?summary).
        BigNumber_of (quantity b) = BN (int (total_of (assetId (asset b)) example_rows))"
    by blast+
  from q have "BigNumber_of (quantity (token_of ''A'' ''12''))
      = BN (int (total_of (assetId (asset (token_of ''A'' ''12''))) example_rows))"
    by simp
  then have a: "BigNumber_of (quantity (token_of ''A'' ''12'')) = BN (int (total_of ''A'' example_rows))"
    by (simp add: token_of_def)
  have t: "total_of ''A'' example_rows = 12"
    by (simp add: total_of_def token_total_def all_tokens_def example_rows_def token_of_def
        nat_of_digits_def digit_val_def)
  from wf na s d a t show ?thesis by simp
qed

subsection \<open>The order of the rows and of the tokens\<close>

lemma bn_total_mset:
  assumes "mset qs = mset qs'"
  shows "bn_total qs = bn_total qs'"
proof -
  from assms have "set qs = set qs'" by (rule mset_eq_setD)
  then have a: "list_all (\<lambda>q. BigNumber_of q \<noteq> NaN) qs = list_all (\<lambda>q. BigNumber_of q \<noteq> NaN) qs'"
    by (simp add: list_all_iff)
  have "sum_list (map f qs) = sum_list (map f qs')" for f :: "string \<Rightarrow> int"
  proof -
    have "sum_list (map f qs) = sum_mset (image_mset f (mset qs))"
      by (metis mset_map sum_mset_sum_list)
    also have "\<dots> = sum_mset (image_mset f (mset qs'))" by (simp add: assms)
    also have "\<dots> = sum_list (map f qs')"
      by (metis mset_map sum_mset_sum_list)
    finally show ?thesis .
  qed
  with a show ?thesis by (simp add: bn_total_def)
qed

lemma summed_mset:
  assumes "mset (q # qs) = mset (q' # qs')"
  shows "foldl add_quantities q qs = foldl add_quantities q' qs'"
proof (cases qs)
  case Nil
  with assms have "size (mset (q' # qs')) = 1" by (metis size_mset length_Cons list.size(3) One_nat_def)
  then have "qs' = []" by simp
  with assms Nil show ?thesis by simp
next
  case (Cons r rest)
  from assms have "length (q # qs) = length (q' # qs')" by (rule mset_eq_length)
  with Cons have ne: "qs \<noteq> []" "qs' \<noteq> []" by auto
  have "foldl add_quantities q qs = toString (bn_total (q # qs))"
    using foldl_is_toString [OF ne(1), of q] by (simp add: value_foldl bn_total_Cons)
  moreover have "foldl add_quantities q' qs' = toString (bn_total (q' # qs'))"
    using foldl_is_toString [OF ne(2), of q'] by (simp add: value_foldl bn_total_Cons)
  ultimately show ?thesis
    using bn_total_mset [OF assms] by simp
qed

lemma balance_quantity_mset:
  assumes "mset es = mset es'"
  shows "map_option quantity (balance_at k es) = map_option quantity (balance_at k es')"
proof -
  let ?L = "filter (\<lambda>e. fst e = k) es" and ?L' = "filter (\<lambda>e. fst e = k) es'"
  have m: "mset ?L = mset ?L'" by (simp add: assms)
  show ?thesis
  proof (cases ?L)
    case Nil
    with m have "?L' = []" by (metis mset.simps(1) mset_zero_iff)
    with Nil show ?thesis by (simp add: balance_at_def)
  next
    case (Cons e rest)
    with m obtain e' rest' where c': "?L' = e' # rest'" by (cases ?L') auto
    have "mset (map (\<lambda>e. quantity (snd e)) ?L) = mset (map (\<lambda>e. quantity (snd e)) ?L')"
      by (simp only: mset_map m)
    then have "mset (map (\<lambda>e. quantity (snd e)) (e # rest))
        = mset (map (\<lambda>e. quantity (snd e)) (e' # rest'))"
      by (simp only: Cons c')
    then have "mset (quantity (snd e) # map (\<lambda>e. quantity (snd e)) rest)
        = mset (quantity (snd e') # map (\<lambda>e. quantity (snd e)) rest')"
      by (simp only: list.map)
    from summed_mset [OF this] show ?thesis
      by (simp add: balance_at_def Cons c')
  qed
qed

lemma entries_mset:
  assumes "same_rows rows rows'"
  shows "mset (entries rows) = mset (entries rows')"
proof -
  define h where "h = (\<lambda>utxo :: TransactionOutput. (utxo_value utxo, mset (tokens utxo)))"
  define G where "G = (\<lambda>(v, T). {#(''ada'', ada_balance v)#}
      + image_mset (\<lambda>token. (assetId (asset token), token)) T)"
  have e: "mset (entries_of utxo) = G (h utxo)" for utxo
    by (simp add: entries_of_def G_def h_def)
  have "mset (entries rs) = sum_mset (image_mset G (mset (map h rs)))" for rs
    by (induction rs) (simp_all add: entries_def e)
  moreover from assms have "mset (map h rows) = mset (map h rows')"
    by (simp add: same_rows_def h_def)
  ultimately show ?thesis by simp
qed

lemma tokens_mset:
  assumes "same_rows rows rows'"
  shows "mset (all_tokens rows) = mset (all_tokens rows')"
proof -
  define h where "h = (\<lambda>utxo :: TransactionOutput. (utxo_value utxo, mset (tokens utxo)))"
  have "mset (all_tokens rs) = sum_mset (image_mset snd (mset (map h rs)))" for rs
    by (induction rs) (simp_all add: all_tokens_def h_def)
  moreover from assms have "mset (map h rows) = mset (map h rows')"
    by (simp add: same_rows_def h_def)
  ultimately show ?thesis by simp
qed

lemma balances_by_keys:
  "map_values (aggregate rows)
     = map (\<lambda>k. the (balance_at k (entries rows))) (map fst (aggregate rows))"
  unfolding map_values_def
  using values_by_keys [OF aggregate_distinct, of rows] by (simp add: lookup_aggregate)

lemma keys_mset: "mset (map fst (aggregate rows)) = mset_set (fst ` set (entries rows))"
proof -
  have "mset_set (set (map fst (aggregate rows))) = mset (map fst (aggregate rows))"
    using aggregate_distinct by (rule mset_set_set)
  then show ?thesis
    using aggregate_keys [of rows] by simp
qed

lemma balances_mset:
  "mset (map f (map_values (aggregate rows)))
     = image_mset (\<lambda>k. f (the (balance_at k (entries rows)))) (mset_set (fst ` set (entries rows)))"
proof -
  have "mset (map f (map_values (aggregate rows)))
      = image_mset (\<lambda>k. f (the (balance_at k (entries rows)))) (mset (map fst (aggregate rows)))"
    unfolding balances_by_keys by (simp add: comp_def image_mset.compositionality)
  then show ?thesis by (simp only: keys_mset)
qed

lemma key_balance:
  assumes "k \<in> fst ` set (entries rows)"
  obtains b where "balance_at k (entries rows) = Some b" "assetId (asset b) = k"
proof -
  from assms have "k \<in> fst ` set (aggregate rows)" by (simp add: aggregate_keys)
  then obtain b where m: "(k, b) \<in> set (aggregate rows)" by auto
  from aggregate_member [OF m] member_key [OF m] that show ?thesis by blast
qed

lemma ada_first:
  "rows \<noteq> [] \<Longrightarrow>
   \<exists>v rest. filter (\<lambda>e. fst e = ''ada'') (entries rows) = (''ada'', ada_balance v) # rest"
  by (cases rows) (auto simp add: entries_Cons entries_of_def)

lemma token_entry:
  "e \<in> set (entries rows) \<Longrightarrow> fst e \<noteq> ''ada'' \<Longrightarrow>
   snd e \<in> set (all_tokens rows) \<and> assetId (asset (snd e)) = fst e"
  by (auto simp: entries_def entries_of_def all_tokens_def)

lemma balance_asset:
  assumes "balance_at k (entries rows) = Some b"
  shows "if k = ''ada'' then asset b = ada_asset
         else \<exists>t \<in> set (all_tokens rows). assetId (asset t) = k \<and> asset b = asset t"
proof -
  from assms obtain e rest where
    f: "filter (\<lambda>e. fst e = k) (entries rows) = e # rest" and a: "asset b = asset (snd e)"
    by (rule balance_at_Some)
  have e: "e \<in> set (entries rows)" "fst e = k"
  proof -
    have "e \<in> set (filter (\<lambda>e. fst e = k) (entries rows))" by (simp only: f) simp
    then show "e \<in> set (entries rows)" "fst e = k" by simp_all
  qed
  show ?thesis
  proof (cases "k = ''ada''")
    case True
    have "rows \<noteq> []" using e by (auto simp: entries_def)
    from ada_first [OF this] f True a show ?thesis
      by (auto simp: ada_balance_def)
  next
    case False
    with token_entry [OF e(1)] e(2) a show ?thesis by auto
  qed
qed

lemma same_keys:
  assumes "mset es = mset es'"
  shows "fst ` set es = fst ` set es'"
  using mset_eq_setD [OF assms] by simp

lemma pairs_agree:
  assumes same: "same_rows rows rows'" and k: "k \<in> fst ` set (entries rows)"
  shows "(\<lambda>b. (assetId (asset b), quantity b)) (the (balance_at k (entries rows)))
       = (\<lambda>b. (assetId (asset b), quantity b)) (the (balance_at k (entries rows')))"
proof -
  have m: "mset (entries rows) = mset (entries rows')"
    using same by (rule entries_mset)
  from k same_keys [OF m] have k': "k \<in> fst ` set (entries rows')" by simp
  from k obtain b where b: "balance_at k (entries rows) = Some b" "assetId (asset b) = k"
    by (rule key_balance)
  from k' obtain b' where b': "balance_at k (entries rows') = Some b'" "assetId (asset b') = k"
    by (rule key_balance)
  from balance_quantity_mset [OF m, of k] b b' have "quantity b = quantity b'" by simp
  with b b' show ?thesis by simp
qed

lemma balances_agree:
  assumes same: "same_rows rows rows'" and one: "one_asset_per_id rows"
    and k: "k \<in> fst ` set (entries rows)"
  shows "the (balance_at k (entries rows)) = the (balance_at k (entries rows'))"
proof -
  have m: "mset (entries rows) = mset (entries rows')"
    using same by (rule entries_mset)
  have ts: "set (all_tokens rows') = set (all_tokens rows)"
    using tokens_mset [OF same] by (metis mset_eq_setD)
  from k same_keys [OF m] have k': "k \<in> fst ` set (entries rows')" by simp
  from k obtain b where b: "balance_at k (entries rows) = Some b"
    by (rule key_balance)
  from k' obtain b' where b': "balance_at k (entries rows') = Some b'"
    by (rule key_balance)
  from balance_quantity_mset [OF m, of k] b b' have q: "quantity b = quantity b'" by simp
  have a: "asset b = asset b'"
  proof (cases "k = ''ada''")
    case True
    with balance_asset [OF b] balance_asset [OF b'] show ?thesis by simp
  next
    case False
    with balance_asset [OF b] obtain t where
      t: "t \<in> set (all_tokens rows)" "assetId (asset t) = k" "asset b = asset t" by auto
    from False balance_asset [OF b'] obtain t' where
      t': "t' \<in> set (all_tokens rows')" "assetId (asset t') = k" "asset b' = asset t'" by auto
    from t'(1) ts have "t' \<in> set (all_tokens rows)" by simp
    with t(1,2) t'(2) one have "asset t = asset t'"
      by (simp add: one_asset_per_id_def)
    with t t' show ?thesis by simp
  qed
  from a q have "b = b'" by simp
  with b b' show ?thesis by simp
qed

text \<open>
  Claim C5. Two sequences that hold the same rows, in any order of the rows and any
  order of the tokens within a row (\<open>same_rows\<close>), give the same multiset of pairs of
  asset id and quantity. When the rows describe each asset once (tokens with the same
  asset id carry the same asset), the two summaries hold the same multiset of balances,
  asset descriptions included.
\<close>

theorem order_of_rows_is_irrelevant:
  assumes "same_rows rows rows'"
    and "getPaymentAddressSummary (Inr \<lparr>utxos = rows, utxos_aggregate_count = n\<rparr>) = Inr summary"
    and "getPaymentAddressSummary (Inr \<lparr>utxos = rows', utxos_aggregate_count = n\<rparr>) = Inr summary'"
  shows "mset (map (\<lambda>b. (assetId (asset b), quantity b)) (assetBalances summary))
       = mset (map (\<lambda>b. (assetId (asset b), quantity b)) (assetBalances summary')) \<and>
     (one_asset_per_id rows \<longrightarrow> mset (assetBalances summary) = mset (assetBalances summary'))"
proof -
  from assms(2) have s: "assetBalances summary = map_values (aggregate rows)"
    by (auto simp: getPaymentAddressSummary_def)
  from assms(3) have s': "assetBalances summary' = map_values (aggregate rows')"
    by (auto simp: getPaymentAddressSummary_def)
  have keys: "fst ` set (entries rows') = fst ` set (entries rows)"
    using same_keys [OF entries_mset [OF assms(1)]] by simp
  have 1: "mset (map (\<lambda>b. (assetId (asset b), quantity b)) (assetBalances summary))
       = mset (map (\<lambda>b. (assetId (asset b), quantity b)) (assetBalances summary'))"
    unfolding s s' balances_mset keys
    by (rule image_mset_cong) (simp add: pairs_agree [OF assms(1)])
  have 2: "mset (assetBalances summary) = mset (assetBalances summary')"
    if one: "one_asset_per_id rows"
  proof -
    have "mset (map (\<lambda>b. b) (map_values (aggregate rows)))
        = mset (map (\<lambda>b. b) (map_values (aggregate rows')))"
      unfolding balances_mset keys
      by (rule image_mset_cong) (simp add: balances_agree [OF assms(1) one])
    then show ?thesis by (simp add: s s')
  qed
  from 1 2 show ?thesis by blast
qed

lemma example_permuted_balances:
  "map_values (aggregate example_rows_permuted)
     = [ada_balance ''3000000'', token_of ''B'' ''1'', token_of ''A'' ''12'']"
proof -
  have "add_quantities ''2000000'' ''1000000'' = ''3000000''"
    "add_quantities ''7'' ''5'' = ''12''"
    using example_sums by (simp_all add: add_quantities_def plus_bn_commute)
  then show ?thesis
    by (simp add: aggregate_def add_utxo_def add_value_def add_token_def map_get_def map_values_def
      example_rows_permuted_def token_of_def ada_balance_def)
qed

lemma example_same_rows: "same_rows example_rows example_rows_permuted"
  by (simp add: same_rows_def example_rows_def example_rows_permuted_def add_mset_commute)

lemma example_one_asset: "one_asset_per_id example_rows"
  by (simp add: one_asset_per_id_def all_tokens_def example_rows_def token_of_def)

text \<open>
  The witness: the rows of the example, and the same rows with the second row first and
  its tokens exchanged. The balances come out in another order, as the same multiset.
\<close>

theorem order_of_rows_is_irrelevant_witness:
  "same_rows example_rows example_rows_permuted \<and> one_asset_per_id example_rows \<and>
   getPaymentAddressSummary (Inr \<lparr>utxos = example_rows, utxos_aggregate_count = 2\<rparr>)
     = Inr \<lparr>assetBalances = [ada_balance ''3000000'', token_of ''A'' ''12'', token_of ''B'' ''1''],
            utxosCount = 2\<rparr> \<and>
   getPaymentAddressSummary (Inr \<lparr>utxos = example_rows_permuted, utxos_aggregate_count = 2\<rparr>)
     = Inr \<lparr>assetBalances = [ada_balance ''3000000'', token_of ''B'' ''1'', token_of ''A'' ''12''],
            utxosCount = 2\<rparr> \<and>
   mset [ada_balance ''3000000'', token_of ''A'' ''12'', token_of ''B'' ''1'']
     = mset [ada_balance ''3000000'', token_of ''B'' ''1'', token_of ''A'' ''12'']"
proof -
  have a: "getPaymentAddressSummary (Inr \<lparr>utxos = example_rows, utxos_aggregate_count = 2\<rparr>)
     = Inr \<lparr>assetBalances = [ada_balance ''3000000'', token_of ''A'' ''12'', token_of ''B'' ''1''],
            utxosCount = 2\<rparr>"
    by (simp add: getPaymentAddressSummary_def example_balances)
  have b: "getPaymentAddressSummary (Inr \<lparr>utxos = example_rows_permuted, utxos_aggregate_count = 2\<rparr>)
     = Inr \<lparr>assetBalances = [ada_balance ''3000000'', token_of ''B'' ''1'', token_of ''A'' ''12''],
            utxosCount = 2\<rparr>"
    by (simp add: getPaymentAddressSummary_def example_permuted_balances)
  from order_of_rows_is_irrelevant [OF example_same_rows a b] example_one_asset
  have "mset [ada_balance ''3000000'', token_of ''A'' ''12'', token_of ''B'' ''1'']
     = mset [ada_balance ''3000000'', token_of ''B'' ''1'', token_of ''A'' ''12'']"
    by simp
  with a b example_same_rows example_one_asset show ?thesis by simp
qed

text \<open>What \<open>same_rows\<close> covers: a permutation of the rows, and a permutation of the tokens of a row.\<close>

lemma same_rows_permutation: "mset rows = mset rows' \<Longrightarrow> same_rows rows rows'"
  unfolding same_rows_def by (metis mset_map)

lemma same_rows_tokens:
  "utxo_value utxo = utxo_value utxo' \<Longrightarrow> mset (tokens utxo) = mset (tokens utxo') \<Longrightarrow>
   same_rows (before @ utxo # after) (before @ utxo' # after)"
  by (simp add: same_rows_def)

subsection \<open>The notation of a sum in the summary\<close>

lemma two_rows_summary:
  assumes "k \<noteq> ''ada''"
  shows "getPaymentAddressSummary
      (Inr \<lparr>utxos = [\<lparr>utxo_value = a, tokens = [token_of k c]\<rparr>,
                     \<lparr>utxo_value = b, tokens = [token_of k d]\<rparr>],
            utxos_aggregate_count = n\<rparr>)
     = Inr \<lparr>assetBalances = [ada_balance (add_quantities a b), token_of k (add_quantities c d)],
            utxosCount = n\<rparr>"
  using assms
  by (simp add: getPaymentAddressSummary_def aggregate_def add_utxo_def add_value_def
      add_token_def map_get_def map_values_def token_of_def ada_balance_def)

lemma two_values_summary:
  "getPaymentAddressSummary
      (Inr \<lparr>utxos = [\<lparr>utxo_value = a, tokens = []\<rparr>, \<lparr>utxo_value = b, tokens = []\<rparr>],
            utxos_aggregate_count = n\<rparr>)
     = Inr \<lparr>assetBalances = [ada_balance (add_quantities a b)], utxosCount = n\<rparr>"
  by (simp add: getPaymentAddressSummary_def aggregate_def add_utxo_def add_value_def
      map_get_def map_values_def ada_balance_def)

lemma large_sum:
  "add_quantities ''999999999999999999999'' ''1'' = ''1e+21''"
proof -
  have d: "decimal ''999999999999999999999''" "decimal ''1''"
    by (simp_all add: decimal_def is_digit_def)
  have v: "nat_of_digits ''999999999999999999999'' + nat_of_digits ''1'' = 1000000000000000000000"
    by (simp add: nat_of_digits_def digit_val_def)
  have ds: "digits_of_nat 1000000000000000000000 = ''1000000000000000000000''"
    by (simp add: digits_of_nat.simps digit_char_eval)
  show ?thesis
    by (simp add: add_quantities_decimal d v digits_toString_def ds toExponential_def
        strip_zeros_def digits_of_nat.simps digit_char_eval)
qed

text \<open>
  Claim C4, as amended. The summary of two rows holds, for ada and for a token asset,
  the string that \<^verbatim>\<open>new BigNumber(x).plus(new BigNumber(y)).toString()\<close> gives for the two
  quantities. For decimal numerals that string denotes exactly the sum of the two
  numbers, whatever their size: no floating point is involved. It is the decimal
  numeral of the sum when the sum is below \<open>10^21\<close>; from \<open>10^21\<close> on it is the same
  number in exponential notation, which is not a decimal numeral. The example of the
  specification: 9007199254740993 + 1, beyond \<open>2^53\<close>.
\<close>

theorem addition_is_exact:
  "(k \<noteq> ''ada'' \<longrightarrow>
      getPaymentAddressSummary
        (Inr \<lparr>utxos = [\<lparr>utxo_value = a, tokens = [token_of k c]\<rparr>,
                       \<lparr>utxo_value = b, tokens = [token_of k d]\<rparr>],
              utxos_aggregate_count = n\<rparr>)
       = Inr \<lparr>assetBalances = [ada_balance (add_quantities a b), token_of k (add_quantities c d)],
              utxosCount = n\<rparr>) \<and>
   (decimal a \<and> decimal b \<longrightarrow>
      BigNumber_of (add_quantities a b) = BN (int (nat_of_digits a + nat_of_digits b)) \<and>
      (nat_of_digits a + nat_of_digits b < 10 ^ 21 \<longrightarrow>
         add_quantities a b = digits_of_nat (nat_of_digits a + nat_of_digits b) \<and>
         decimal (add_quantities a b) \<and>
         nat_of_digits (add_quantities a b) = nat_of_digits a + nat_of_digits b) \<and>
      (10 ^ 21 \<le> nat_of_digits a + nat_of_digits b \<longrightarrow>
         add_quantities a b = toExponential (digits_of_nat (nat_of_digits a + nat_of_digits b)) \<and>
         \<not> decimal (add_quantities a b))) \<and>
   add_quantities ''9007199254740993'' ''1'' = ''9007199254740994''"
proof (intro conjI impI)
  assume "k \<noteq> ''ada''"
  then show "getPaymentAddressSummary
        (Inr \<lparr>utxos = [\<lparr>utxo_value = a, tokens = [token_of k c]\<rparr>,
                       \<lparr>utxo_value = b, tokens = [token_of k d]\<rparr>],
              utxos_aggregate_count = n\<rparr>)
       = Inr \<lparr>assetBalances = [ada_balance (add_quantities a b), token_of k (add_quantities c d)],
              utxosCount = n\<rparr>"
    by (rule two_rows_summary)
next
  assume d: "decimal a \<and> decimal b"
  then show "BigNumber_of (add_quantities a b) = BN (int (nat_of_digits a + nat_of_digits b))"
    by (simp add: BigNumber_of_add BigNumber_of_decimal plus_bn_def)
  {
    assume "nat_of_digits a + nat_of_digits b < 10 ^ 21"
    with d show s: "add_quantities a b = digits_of_nat (nat_of_digits a + nat_of_digits b)"
      by (simp add: add_quantities_decimal digits_toString_small)
    show "decimal (add_quantities a b)"
      unfolding s by (rule decimal_digits_of_nat)
    show "nat_of_digits (add_quantities a b) = nat_of_digits a + nat_of_digits b"
      unfolding s by (rule nat_of_digits_of_nat)
  }
  {
    assume "10 ^ 21 \<le> nat_of_digits a + nat_of_digits b"
    with d show s: "add_quantities a b
        = toExponential (digits_of_nat (nat_of_digits a + nat_of_digits b))"
      by (simp add: add_quantities_decimal digits_toString_large)
    show "\<not> decimal (add_quantities a b)"
      unfolding s by (rule toExponential_not_decimal)
  }
next
  have a: "decimal ''9007199254740993''" and b: "decimal ''1''"
    by (simp_all add: decimal_def is_digit_def)
  have "nat_of_digits ''9007199254740993'' + nat_of_digits ''1'' = 9007199254740994"
    by (simp add: nat_of_digits_def digit_val_def)
  moreover have "digits_toString 9007199254740994 = ''9007199254740994''"
    by (simp add: digits_toString_small digits_of_nat.simps digit_char_eval)
  ultimately show "add_quantities ''9007199254740993'' ''1'' = ''9007199254740994''"
    using add_quantities_decimal [OF a b] by simp
qed

text \<open>
  The witness: two rows with the values 9007199254740993 and 1 and with the quantities
  9999999999999999999999 and 1 of a token A. The ada balance is the decimal numeral of
  the sum; the balance of A denotes the exact sum of 22 digits and is not a decimal
  numeral.
\<close>

theorem addition_is_exact_witness:
  "getPaymentAddressSummary
      (Inr \<lparr>utxos = [\<lparr>utxo_value = ''9007199254740993'',
                      tokens = [token_of ''A'' ''9999999999999999999999'']\<rparr>,
                     \<lparr>utxo_value = ''1'', tokens = [token_of ''A'' ''1'']\<rparr>],
            utxos_aggregate_count = 2\<rparr>)
     = Inr \<lparr>assetBalances = [ada_balance ''9007199254740994'',
                               token_of ''A'' (add_quantities ''9999999999999999999999'' ''1'')],
            utxosCount = 2\<rparr> \<and>
   BigNumber_of (add_quantities ''9999999999999999999999'' ''1'') = BN 10000000000000000000000 \<and>
   \<not> decimal (add_quantities ''9999999999999999999999'' ''1'')"
proof -
  have k: "''A'' \<noteq> ''ada''" by simp
  have d: "decimal ''9999999999999999999999'' \<and> decimal ''1''"
    by (simp add: decimal_def is_digit_def)
  have v: "nat_of_digits ''9999999999999999999999'' + nat_of_digits ''1'' = 10000000000000000000000"
    by (simp add: nat_of_digits_def digit_val_def)
  note t = addition_is_exact [of "''A''" "''9007199254740993''" "''9999999999999999999999''"
    "''1''" "''1''" 2]
  note u = addition_is_exact [of "''A''" "''9999999999999999999999''" "''1''" "''1''" "''1''" 2]
  from t k have 1: "getPaymentAddressSummary
      (Inr \<lparr>utxos = [\<lparr>utxo_value = ''9007199254740993'',
                      tokens = [token_of ''A'' ''9999999999999999999999'']\<rparr>,
                     \<lparr>utxo_value = ''1'', tokens = [token_of ''A'' ''1'']\<rparr>],
            utxos_aggregate_count = 2\<rparr>)
     = Inr \<lparr>assetBalances = [ada_balance ''9007199254740994'',
                               token_of ''A'' (add_quantities ''9999999999999999999999'' ''1'')],
            utxosCount = 2\<rparr>"
    by simp
  from u d have 2: "BigNumber_of (add_quantities ''9999999999999999999999'' ''1'')
      = BN 10000000000000000000000"
    by (simp only: v) simp
  from u d have 3: "\<not> decimal (add_quantities ''9999999999999999999999'' ''1'')"
    by (simp only: v) (simp add: toExponential_not_decimal)
  from 1 2 3 show ?thesis by simp
qed

text \<open>
  The claim as it was stated fails: the two decimal numerals 999999999999999999999 and
  1 have the sum \<open>10^21\<close>, and the summary of two rows with these values holds the
  quantity \<^verbatim>\<open>1e+21\<close>, which is not a decimal numeral.
\<close>

theorem sum_in_exponential_notation:
  "decimal ''999999999999999999999'' \<and> decimal ''1'' \<and>
   add_quantities ''999999999999999999999'' ''1'' = ''1e+21'' \<and>
   \<not> decimal ''1e+21'' \<and>
   getPaymentAddressSummary
      (Inr \<lparr>utxos = [\<lparr>utxo_value = ''999999999999999999999'', tokens = []\<rparr>,
                     \<lparr>utxo_value = ''1'', tokens = []\<rparr>],
            utxos_aggregate_count = 2\<rparr>)
     = Inr \<lparr>assetBalances = [ada_balance ''1e+21''], utxosCount = 2\<rparr>"
proof -
  have "decimal ''999999999999999999999''" "decimal ''1''" "\<not> decimal ''1e+21''"
    by (simp_all add: decimal_def is_digit_def)
  then show ?thesis
    using two_values_summary [of "''999999999999999999999''" "''1''" 2]
    by (simp add: large_sum)
qed


end
